theory Spec2Isabelle
  imports Main "HOL-Library.Sublist"
begin


section \<open>Syntax trees, references and the services the code consumes\<close>

text \<open>
  The program works on the syntax trees, reference sets and module resolution
  of the TypeScript compiler API. None of that is code of the repository: it is
  taken here as data (the tree of a file, with the offsets the API reports) and
  as functions handed in (the language service, the comment scanner, the module
  resolver, the printer). The functions of the repository are translated one by
  one over that data.
\<close>

datatype SyntaxKind =
    SourceFileKind
  | VariableStatement
  | VariableDeclarationList
  | VariableDeclaration
  | FunctionDeclaration
  | InterfaceDeclaration
  | TypeAliasDeclaration
  | ClassDeclaration
  | ExportAssignment
  | ExportDeclaration
  | NamedExports
  | NamespaceExport
  | ExportSpecifier
  | ExportKeyword
  | DefaultKeyword
  | Identifier
  | StringLiteral
  | SyntaxList
  | OtherKind string

text \<open>
  A node as the code reads it: \<open>kind\<close>, the three offsets (\<open>getFullStart\<close> counts the
  leading trivia, \<open>getStart\<close> does not), the children \<open>forEachChild\<close> walks, the
  children \<open>getChildren()\<close> returns (tokens and syntax lists included), and the
  properties \<open>exportClause\<close>, \<open>moduleSpecifier\<close> (of an export declaration),
  \<open>elements\<close> (of a named-exports clause) and \<open>text\<close> (of a string literal or an
  identifier).
  A property a node does not have is \<open>None\<close>, \<open>[]\<close> or the empty string.
\<close>

datatype Node = Node
  (kind: SyntaxKind)
  (getFullStart: nat)
  (getStart: nat)
  (getEnd: nat)
  (forEachChild: "Node list")
  (getChildren: "Node list")
  (exportClause: "Node option")
  (moduleSpecifier: "Node option")
  (elements: "Node list")
  (literalText: string)

record SourceFile =
  fileName :: string
  getFullText :: string
  root :: Node

datatype error =
    ProgramNotFound
  | SourceFileNotFound
  | SyntaxListNotFound
  | UnexpectedNodeType
  | UnexpectedReexportNode
  | TypeError

text \<open>
  A node of the compiler API knows its parent. Here a node travels with the
  list of its ancestors, nearest first, ending with the root of its file (whose
  own parent is undefined). TypeScript's types make the parent of an export
  specifier a named-exports clause and its grandparent an export declaration.
  Where a tree does not have that shape and the code reads a property of an
  ancestor that is not there, JavaScript throws a \<open>TypeError\<close>.
\<close>

type_synonym NodeRef = "Node \<times> Node list"

definition parent :: "Node list \<Rightarrow> error + Node" where
  "parent anc = (case anc of [] \<Rightarrow> Inl TypeError | p # _ \<Rightarrow> Inr p)"

definition parentParent :: "Node list \<Rightarrow> error + Node" where
  "parentParent anc = (case anc of _ # g # _ \<Rightarrow> Inr g | _ \<Rightarrow> Inl TypeError)"

definition isStringLiteral :: "Node \<Rightarrow> bool" where
  "isStringLiteral n = (kind n = StringLiteral)"

text \<open>\<open>s.slice(a, b)\<close> for offsets that are not negative.\<close>

definition slice :: "string \<Rightarrow> nat \<Rightarrow> nat \<Rightarrow> string" where
  "slice s a b = take (b - a) (drop a s)"

definition getText :: "SourceFile \<Rightarrow> Node \<Rightarrow> string" where
  "getText sf n = slice (getFullText sf) (getStart n) (getEnd n)"

definition getWidth :: "Node \<Rightarrow> nat" where
  "getWidth n = getEnd n - getStart n"

definition getFullWidth :: "Node \<Rightarrow> nat" where
  "getFullWidth n = getEnd n - getFullStart n"

text \<open>\<open>s.includes(p)\<close>, named \<open>str_includes\<close> here.\<close>

fun str_includes :: "string \<Rightarrow> string \<Rightarrow> bool" where
  "str_includes [] p = (p = [])"
| "str_includes (c # cs) p = (prefix p (c # cs) \<or> str_includes cs p)"

record TextSpan =
  span_start :: nat
  span_length :: nat

record ReferenceEntry =
  ref_fileName :: string
  textSpan :: TextSpan

record ReferencedSymbol =
  definition_fileName :: string
  references :: "ReferenceEntry list"

text \<open>
  Modelled from the spec: the file store (\<open>FileService\<close>, whose source is not
  among the files): read the current text of a path, write it, delete the path,
  test that the path exists, each visible to the next read. A store is a map from
  paths to texts.
\<close>

type_synonym FileService = "string \<rightharpoonup> string"

definition fs_get :: "FileService \<Rightarrow> string \<Rightarrow> string" where
  "fs_get fs name = (case fs name of None \<Rightarrow> [] | Some content \<Rightarrow> content)"

definition fs_set :: "FileService \<Rightarrow> string \<Rightarrow> string \<Rightarrow> FileService" where
  "fs_set fs name content = fs(name \<mapsto> content)"

definition fs_delete :: "FileService \<Rightarrow> string \<Rightarrow> FileService" where
  "fs_delete fs name = fs(name := None)"

text \<open>
  A program is a snapshot: its source files, and \<open>ts.resolveModuleName\<close> applied
  to its compiler options (the arguments left are the specifier, the containing
  file and the file store behind the resolution host). A language service, seen
  at one state of the file store, gives the program and answers
  \<open>findReferences(fileName, position)\<close>.
\<close>

record Program =
  getSourceFile :: "string \<Rightarrow> SourceFile option"
  resolveModuleName :: "string \<Rightarrow> string \<Rightarrow> FileService \<Rightarrow> string option"

record LanguageService =
  getProgram :: "Program option"
  service_findReferences :: "string \<Rightarrow> nat \<Rightarrow> ReferencedSymbol list option"

record CommentRange =
  range_pos :: nat
  range_end :: nat

text \<open>
  The functions of the \<open>ts\<close> namespace the code calls: the comment scanner, and
  for the regeneration of an export clause the parser and the printer.
\<close>

record TS =
  getLeadingCommentRanges :: "string \<Rightarrow> nat \<Rightarrow> CommentRange list option"
  createSourceFile :: "string \<Rightarrow> SourceFile"
  printFile :: "SourceFile \<Rightarrow> string"

section \<open>The usage analysis\<close>

lemma size_forEachChild [termination_simp]: "size_list size (forEachChild n) < size n"
  by (cases n) simp

fun findFirstNodeOfKind_visitor :: "SyntaxKind \<Rightarrow> Node \<Rightarrow> Node option \<Rightarrow> Node option"
  and findFirstNodeOfKind_each :: "SyntaxKind \<Rightarrow> Node list \<Rightarrow> Node option \<Rightarrow> Node option"
where
  "findFirstNodeOfKind_visitor k (Node kd fs st en cs gs ec ms els txt) result =
     (case result of
        Some r \<Rightarrow> Some r
      | None \<Rightarrow>
          if kd = k then Some (Node kd fs st en cs gs ec ms els txt)
          else findFirstNodeOfKind_each k cs None)"
| "findFirstNodeOfKind_each k [] result = result"
| "findFirstNodeOfKind_each k (c # cs) result =
     findFirstNodeOfKind_each k cs (findFirstNodeOfKind_visitor k c result)"

definition findFirstNodeOfKind :: "Node \<Rightarrow> SyntaxKind \<Rightarrow> Node option" where
  "findFirstNodeOfKind root_node k = findFirstNodeOfKind_each k (forEachChild root_node) None"

definition IGNORE_COMMENT :: string where
  "IGNORE_COMMENT = ''ts-remove-unused-skip''"

definition getLeadingComment :: "TS \<Rightarrow> SourceFile \<Rightarrow> Node \<Rightarrow> string" where
  "getLeadingComment ts sf node =
     (let fullText = getFullText sf in
      case getLeadingCommentRanges ts fullText (getFullStart node) of
        None \<Rightarrow> []
      | Some ranges \<Rightarrow> concat (map (\<lambda>r. slice fullText (range_pos r) (range_end r)) ranges))"

definition isDeclarationKind :: "SyntaxKind \<Rightarrow> bool" where
  "isDeclarationKind k =
     (k = VariableStatement \<or> k = FunctionDeclaration \<or> k = InterfaceDeclaration
      \<or> k = TypeAliasDeclaration \<or> k = ClassDeclaration)"

definition isTarget :: "Node \<Rightarrow> bool" where
  "isTarget node =
     (if kind node = ExportAssignment \<or> kind node = ExportSpecifier then True
      else if isDeclarationKind (kind node)
        then findFirstNodeOfKind node ExportKeyword \<noteq> None
      else False)"

definition findReferences ::
  "SourceFile \<Rightarrow> Node \<Rightarrow> LanguageService \<Rightarrow> error + ReferencedSymbol list option" where
  "findReferences sf node service =
     (if kind node = VariableStatement then
        (case findFirstNodeOfKind node VariableDeclaration of
           None \<Rightarrow> Inr None
         | Some variableDeclaration \<Rightarrow>
             Inr (service_findReferences service (fileName sf) (getStart variableDeclaration)))
      else if kind node = FunctionDeclaration \<or> kind node = InterfaceDeclaration
              \<or> kind node = TypeAliasDeclaration \<or> kind node = ExportSpecifier
              \<or> kind node = ClassDeclaration then
        Inr (service_findReferences service (fileName sf) (getStart node))
      else if kind node = ExportAssignment then
        (case find (\<lambda>n. kind n = DefaultKeyword) (getChildren node) of
           None \<Rightarrow> Inr None
         | Some defaultKeyword \<Rightarrow>
             Inr (service_findReferences service (fileName sf) (getStart defaultKeyword)))
      else Inl UnexpectedNodeType)"

text \<open>
  \<open>getReexportInFile\<close>: the export specifiers of a file whose export declaration
  has a string literal as module specifier, in document order. The walk does not
  enter an export specifier.
\<close>

fun getReexportInFile_visit ::
  "Node list \<Rightarrow> Node \<Rightarrow> NodeRef list \<Rightarrow> error + NodeRef list"
  and getReexportInFile_each ::
  "Node list \<Rightarrow> Node list \<Rightarrow> NodeRef list \<Rightarrow> error + NodeRef list"
where
  "getReexportInFile_visit anc node result =
     (if kind node = ExportSpecifier then
        (case parentParent anc of
           Inl e \<Rightarrow> Inl e
         | Inr g \<Rightarrow>
             (case moduleSpecifier g of
                None \<Rightarrow> Inr result
              | Some ms \<Rightarrow> if isStringLiteral ms then Inr (result @ [(node, anc)]) else Inr result))
      else getReexportInFile_each (node # anc) (forEachChild node) result)"
| "getReexportInFile_each anc [] result = Inr result"
| "getReexportInFile_each anc (c # cs) result =
     (case getReexportInFile_visit anc c result of
        Inl e \<Rightarrow> Inl e
      | Inr result' \<Rightarrow> getReexportInFile_each anc cs result')"

definition getReexportInFile :: "SourceFile \<Rightarrow> error + NodeRef list" where
  "getReexportInFile file =
     getReexportInFile_each [root file] (forEachChild (root file)) []"

definition getFileFromModuleSpecifierText ::
  "string \<Rightarrow> string \<Rightarrow> Program \<Rightarrow> FileService \<Rightarrow> string option" where
  "getFileFromModuleSpecifierText specifier file program fileService =
     resolveModuleName program specifier file fileService"

text \<open>
  \<open>Object.fromEntries(references.map((v) => [v.definition.fileName, v]))\<close>: of two
  entries with one key the later one stays.
\<close>

definition referencesKeyValue :: "ReferencedSymbol list \<Rightarrow> (string \<rightharpoonup> ReferencedSymbol)" where
  "referencesKeyValue refs = map_of (rev (map (\<lambda>v. (definition_fileName v, v)) refs))"

text \<open>
  The search for the re-export in a resolved file: the specifier whose start and
  end are those of the first reference recorded against that file.
\<close>

definition findReexportNode :: "ReferencedSymbol \<Rightarrow> NodeRef list \<Rightarrow> NodeRef option" where
  "findReexportNode referencedSymbol reexportSpecifiers =
     (case references referencedSymbol of
        [] \<Rightarrow> None
      | firstReferencedSymbol # _ \<Rightarrow>
          find (\<lambda>r. getStart (fst r) = span_start (textSpan firstReferencedSymbol)
                   \<and> getEnd (fst r) = span_start (textSpan firstReferencedSymbol)
                                       + span_length (textSpan firstReferencedSymbol))
            reexportSpecifiers)"

text \<open>
  The loop of \<open>getAncestorFiles\<close>. The loop variable \<open>specifier\<close> is a string or
  null, and \<open>while (specifier)\<close> stops on null and on the empty string alike;
  \<open>!origin\<close> holds of undefined and of the empty string alike.
  A run of the loop that does not end is \<open>None\<close>; \<open>Some (Inr None)\<close> is the
  result \<open>null\<close>.
\<close>

partial_function (option) getAncestorFiles_while ::
  "ReferencedSymbol list \<Rightarrow> FileService \<Rightarrow> Program \<Rightarrow> string option \<Rightarrow> string
     \<Rightarrow> string set \<Rightarrow> (error + string set option) option"
where
  "getAncestorFiles_while refs fileService program specifier currentFile result =
     (case specifier of
        None \<Rightarrow> Some (Inr (Some result))
      | Some spec \<Rightarrow>
          if spec = [] then Some (Inr (Some result))
          else
            (case getFileFromModuleSpecifierText spec currentFile program fileService of
               None \<Rightarrow> Some (Inr None)
             | Some origin \<Rightarrow>
                 if origin = [] then Some (Inr None)
                 else
                   (case referencesKeyValue refs origin of
                      None \<Rightarrow> Some (Inr None)
                    | Some referencedSymbol \<Rightarrow>
                        (case getSourceFile program origin of
                           None \<Rightarrow> Some (Inr None)
                         | Some sourceFile \<Rightarrow>
                             (case getReexportInFile sourceFile of
                                Inl e \<Rightarrow> Some (Inl e)
                              | Inr reexportSpecifiers \<Rightarrow>
                                  (case findReexportNode referencedSymbol reexportSpecifiers of
                                     None \<Rightarrow> Some (Inr (Some (insert origin result)))
                                   | Some reexportNode \<Rightarrow>
                                       (case parentParent (snd reexportNode) of
                                          Inl e \<Rightarrow> Some (Inl e)
                                        | Inr g \<Rightarrow>
                                            (case moduleSpecifier g of
                                               None \<Rightarrow> Some (Inl UnexpectedReexportNode)
                                             | Some ms \<Rightarrow>
                                                 if \<not> isStringLiteral ms
                                                 then Some (Inl UnexpectedReexportNode)
                                                 else getAncestorFiles_while refs fileService
                                                        program (Some (literalText ms)) origin
                                                        (insert origin result)))))))))"

definition getAncestorFiles ::
  "NodeRef \<Rightarrow> ReferencedSymbol list \<Rightarrow> FileService \<Rightarrow> Program \<Rightarrow> string
     \<Rightarrow> (error + string set option) option" where
  "getAncestorFiles node refs fileService program file =
     (case parentParent (snd node) of
        Inl e \<Rightarrow> Some (Inl e)
      | Inr g \<Rightarrow>
          (case moduleSpecifier g of
             None \<Rightarrow> Some (Inr None)
           | Some ms \<Rightarrow>
               if \<not> isStringLiteral ms then Some (Inr None)
               else getAncestorFiles_while refs fileService program (Some (literalText ms))
                      file {}))"

text \<open>
  \<open>references.filter(keep).flatMap((v) => v.references)\<close>: the references kept,
  whose number is the count the verdict rests on.
\<close>

definition flatReferences :: "ReferencedSymbol list \<Rightarrow> ReferenceEntry list" where
  "flatReferences refs = concat (map references refs)"

definition keptReferences ::
  "(ReferencedSymbol \<Rightarrow> bool) \<Rightarrow> ReferencedSymbol list \<Rightarrow> ReferenceEntry list" where
  "keptReferences keep refs = flatReferences (filter keep refs)"

text \<open>
  The test \<open>ts.isExportSpecifier(node) && node.parent.parent.moduleSpecifier\<close>: the
  node is a forwarding specifier, \<open>export { x } from '...'\<close>.
\<close>

definition isReexport :: "Node \<Rightarrow> Node list \<Rightarrow> error + bool" where
  "isReexport node anc =
     (if kind node = ExportSpecifier then
        (case parentParent anc of
           Inl e \<Rightarrow> Inl e
         | Inr g \<Rightarrow> Inr (moduleSpecifier g \<noteq> None))
      else Inr False)"

text \<open>
  \<open>getUnusedExports\<close>: \<open>visit\<close> walks the file and threads the two variables it
  assigns, the list \<open>nodes\<close> and the flag \<open>isUsed\<close>.
\<close>

fun visit ::
  "TS \<Rightarrow> LanguageService \<Rightarrow> FileService \<Rightarrow> Program \<Rightarrow> SourceFile \<Rightarrow> Node list \<Rightarrow> Node
     \<Rightarrow> NodeRef list \<times> bool \<Rightarrow> (error + NodeRef list \<times> bool) option"
  and visit_each ::
  "TS \<Rightarrow> LanguageService \<Rightarrow> FileService \<Rightarrow> Program \<Rightarrow> SourceFile \<Rightarrow> Node list \<Rightarrow> Node list
     \<Rightarrow> NodeRef list \<times> bool \<Rightarrow> (error + NodeRef list \<times> bool) option"
where
  "visit ts languageService fileService program sourceFile anc node st =
     (if kind node = ExportDeclaration \<and> exportClause node = None then
        Some (Inr (fst st, True))
      else if isTarget node then
        (if str_includes (getLeadingComment ts sourceFile node) IGNORE_COMMENT then
           Some (Inr (fst st, True))
         else
           (case findReferences sourceFile node languageService of
              Inl e \<Rightarrow> Some (Inl e)
            | Inr None \<Rightarrow> Some (Inr st)
            | Inr (Some refs) \<Rightarrow>
                (case isReexport node anc of
                   Inl e \<Rightarrow> Some (Inl e)
                 | Inr True \<Rightarrow>
                     (case getAncestorFiles (node, anc) refs fileService program
                             (fileName sourceFile) of
                        None \<Rightarrow> None
                      | Some (Inl e) \<Rightarrow> Some (Inl e)
                      | Some (Inr None) \<Rightarrow> Some (Inr (fst st, True))
                      | Some (Inr (Some ancestors)) \<Rightarrow>
                          if length (keptReferences
                               (\<lambda>v. definition_fileName v \<noteq> fileName sourceFile
                                    \<and> definition_fileName v \<notin> ancestors) refs) > 0
                          then Some (Inr (fst st, True))
                          else Some (Inr (fst st @ [(node, anc)], snd st)))
                 | Inr False \<Rightarrow>
                     if length (keptReferences
                          (\<lambda>v. definition_fileName v \<noteq> fileName sourceFile) refs) > 0
                     then Some (Inr (fst st, True))
                     else Some (Inr (fst st @ [(node, anc)], snd st)))))
      else visit_each ts languageService fileService program sourceFile (node # anc)
             (forEachChild node) st)"
| "visit_each ts languageService fileService program sourceFile anc [] st = Some (Inr st)"
| "visit_each ts languageService fileService program sourceFile anc (c # cs) st =
     (case visit ts languageService fileService program sourceFile anc c st of
        None \<Rightarrow> None
      | Some (Inl e) \<Rightarrow> Some (Inl e)
      | Some (Inr st') \<Rightarrow>
          visit_each ts languageService fileService program sourceFile anc cs st')"

declare visit.simps [simp del]

definition getUnusedExports ::
  "TS \<Rightarrow> LanguageService \<Rightarrow> SourceFile \<Rightarrow> FileService
     \<Rightarrow> (error + NodeRef list \<times> bool) option" where
  "getUnusedExports ts languageService sourceFile fileService =
     (case getProgram languageService of
        None \<Rightarrow> Some (Inl ProgramNotFound)
      | Some program \<Rightarrow>
          visit_each ts languageService fileService program sourceFile [root sourceFile]
            (forEachChild (root sourceFile)) ([], False))"

section \<open>The earlier analysis of \<open>removeExport.ts\<close>\<close>

text \<open>
  \<open>removeExport.ts\<close> has its own \<open>isTarget\<close> (the skip comment is tested inside
  it and a class declaration is no target) and its own \<open>findReferences\<close>; its
  \<open>getFirstUnusedExport\<close> returns the first target whose number of references,
  all files taken together, is the expected one. A target that is passed over
  is walked into, as any other node.
\<close>

definition removeExport_isTarget :: "TS \<Rightarrow> SourceFile \<Rightarrow> Node \<Rightarrow> bool" where
  "removeExport_isTarget ts sf node =
     (if kind node = ExportAssignment \<or> kind node = ExportSpecifier then
        (if str_includes (getLeadingComment ts sf node) IGNORE_COMMENT then False else True)
      else if kind node = VariableStatement \<or> kind node = FunctionDeclaration
              \<or> kind node = InterfaceDeclaration \<or> kind node = TypeAliasDeclaration then
        (if findFirstNodeOfKind node ExportKeyword = None then False
         else if str_includes (getLeadingComment ts sf node) IGNORE_COMMENT then False
         else True)
      else False)"

definition removeExport_findReferences ::
  "SourceFile \<Rightarrow> Node \<Rightarrow> LanguageService \<Rightarrow> error + ReferencedSymbol list option" where
  "removeExport_findReferences sf node service =
     (if kind node = VariableStatement then
        (case findFirstNodeOfKind node VariableDeclaration of
           None \<Rightarrow> Inr None
         | Some variableDeclaration \<Rightarrow>
             Inr (service_findReferences service (fileName sf) (getStart variableDeclaration)))
      else if kind node = FunctionDeclaration \<or> kind node = InterfaceDeclaration
              \<or> kind node = TypeAliasDeclaration \<or> kind node = ExportSpecifier then
        Inr (service_findReferences service (fileName sf) (getStart node))
      else if kind node = ExportAssignment then
        (case find (\<lambda>n. kind n = DefaultKeyword) (getChildren node) of
           None \<Rightarrow> Inr None
         | Some defaultKeyword \<Rightarrow>
             Inr (service_findReferences service (fileName sf) (getStart defaultKeyword)))
      else Inl UnexpectedNodeType)"

fun getFirstUnusedExport_visit ::
  "TS \<Rightarrow> LanguageService \<Rightarrow> SourceFile \<Rightarrow> Node \<Rightarrow> Node option \<Rightarrow> error + Node option"
  and getFirstUnusedExport_each ::
  "TS \<Rightarrow> LanguageService \<Rightarrow> SourceFile \<Rightarrow> Node list \<Rightarrow> Node option \<Rightarrow> error + Node option"
where
  "getFirstUnusedExport_visit ts service sourceFile node result =
     (case result of
        Some r \<Rightarrow> Inr (Some r)
      | None \<Rightarrow>
          if removeExport_isTarget ts sourceFile node then
            (case removeExport_findReferences sourceFile node service of
               Inl e \<Rightarrow> Inl e
             | Inr None \<Rightarrow> Inr None
             | Inr (Some refs) \<Rightarrow>
                 if kind node = ExportSpecifier
                    \<and> length (flatReferences refs) = 2 then Inr (Some node)
                 else if length (flatReferences refs) = 1 then Inr (Some node)
                 else getFirstUnusedExport_each ts service sourceFile (forEachChild node) None)
          else getFirstUnusedExport_each ts service sourceFile (forEachChild node) None)"
| "getFirstUnusedExport_each ts service sourceFile [] result = Inr result"
| "getFirstUnusedExport_each ts service sourceFile (c # cs) result =
     (case getFirstUnusedExport_visit ts service sourceFile c result of
        Inl e \<Rightarrow> Inl e
      | Inr result' \<Rightarrow> getFirstUnusedExport_each ts service sourceFile cs result')"

declare getFirstUnusedExport_visit.simps [simp del]

definition getFirstUnusedExport ::
  "TS \<Rightarrow> SourceFile \<Rightarrow> LanguageService \<Rightarrow> error + Node option" where
  "getFirstUnusedExport ts sourceFile service =
     getFirstUnusedExport_each ts service sourceFile (forEachChild (root sourceFile)) None"

section \<open>The text edits\<close>

record TextChange =
  newText :: string
  span :: TextSpan

text \<open>
  The tracker only listens: each of its four methods appends what it was told to
  a log.
\<close>

datatype EditEvent =
    TrackStart string string
  | TrackEnd string
  | TrackDelete string
  | TrackRemoveExport string nat string

definition isWhiteSpace :: "char \<Rightarrow> bool" where
  "isWhiteSpace c =
     (c = CHR '' '' \<or> c = CHR 0x09 \<or> c = CHR 0x0A \<or> c = CHR 0x0B \<or> c = CHR 0x0C
      \<or> c = CHR 0x0D)"

definition trim :: "string \<Rightarrow> string" where
  "trim s = rev (dropWhile isWhiteSpace (rev (dropWhile isWhiteSpace s)))"

text \<open>
  The transformer of \<open>getUpdatedExportDeclaration\<close>: its visitor drops an export
  specifier whose text is the text of the specifier to remove and rebuilds
  every other node from its visited children (\<open>ts.visitEachChild\<close>).
\<close>

fun transform_visitor :: "(Node \<Rightarrow> bool) \<Rightarrow> Node \<Rightarrow> Node option"
  and visitEachChild :: "(Node \<Rightarrow> bool) \<Rightarrow> Node \<Rightarrow> Node"
  and visitNodes :: "(Node \<Rightarrow> bool) \<Rightarrow> Node list \<Rightarrow> Node list"
  and visitNode :: "(Node \<Rightarrow> bool) \<Rightarrow> Node option \<Rightarrow> Node option"
where
  "transform_visitor rm node =
     (if kind node = ExportSpecifier \<and> rm node then None else Some (visitEachChild rm node))"
| "visitEachChild rm (Node kd fs st en cs gs ec ms els txt) =
     Node kd fs st en (visitNodes rm cs) gs (visitNode rm ec) ms (visitNodes rm els) txt"
| "visitNodes rm [] = []"
| "visitNodes rm (c # cs) =
     (case transform_visitor rm c of
        None \<Rightarrow> visitNodes rm cs
      | Some c' \<Rightarrow> c' # visitNodes rm cs)"
| "visitNode rm None = None"
| "visitNode rm (Some c) = transform_visitor rm c"

definition getUpdatedExportDeclaration :: "TS \<Rightarrow> SourceFile \<Rightarrow> Node \<Rightarrow> Node \<Rightarrow> string" where
  "getUpdatedExportDeclaration ts sf exportDeclaration removeTarget =
     (let tmpFile = createSourceFile ts (getText sf exportDeclaration);
          result = tmpFile\<lparr>root :=
            visitEachChild (\<lambda>node. getText tmpFile node = getText sf removeTarget)
              (root tmpFile)\<rparr>
      in trim (printFile ts result))"

text \<open>\<open>s.indexOf(c)\<close>, which is \<open>-1\<close> where \<open>c\<close> does not occur, and \<open>s.slice(0, e)\<close>,
  where a negative \<open>e\<close> counts from the end.\<close>

definition indexOf :: "string \<Rightarrow> char \<Rightarrow> int" where
  "indexOf s c = (if c \<in> set s then int (length (takeWhile (\<lambda>x. x \<noteq> c) s)) else -1)"

definition slice0 :: "string \<Rightarrow> int \<Rightarrow> string" where
  "slice0 s e = (if e < 0 then take (length s - nat (- e)) s else take (nat e) s)"

text \<open>\<open>xs.findIndex(p)\<close>, \<open>None\<close> for \<open>-1\<close>.\<close>

fun findIndex :: "('a \<Rightarrow> bool) \<Rightarrow> 'a list \<Rightarrow> nat option" where
  "findIndex p [] = None"
| "findIndex p (x # xs) =
     (if p x then Some 0 else (case findIndex p xs of None \<Rightarrow> None | Some i \<Rightarrow> Some (Suc i)))"

text \<open>
  The body of the loop of \<open>getTextChanges\<close> for one unused node: the change it
  pushes, what it tells the tracker, and whether it sets \<open>aborted\<close>.
\<close>

definition getTextChanges_node ::
  "TS \<Rightarrow> SourceFile \<Rightarrow> NodeRef \<Rightarrow> error + TextChange \<times> EditEvent \<times> bool" where
  "getTextChanges_node ts sourceFile nr =
     (let node = fst nr; anc = snd nr in
      if kind node = ExportSpecifier then
        (case parent anc of
           Inl e \<Rightarrow> Inl e
         | Inr p \<Rightarrow>
             (case parentParent anc of
                Inl e \<Rightarrow> Inl e
              | Inr g \<Rightarrow>
                  if length (elements p) = 1 then
                    Inr (\<lparr>newText = [],
                          span = \<lparr>span_start = getFullStart g, span_length = getFullWidth g\<rparr>\<rparr>,
                         TrackRemoveExport (fileName sourceFile) (getStart g)
                           (getText sourceFile g),
                         False)
                  else
                    Inr (\<lparr>newText = getUpdatedExportDeclaration ts sourceFile g node,
                          span = \<lparr>span_start = getStart g, span_length = getWidth g\<rparr>\<rparr>,
                         TrackRemoveExport (fileName sourceFile) (getStart node)
                           (''export { '' @ getText sourceFile node @ '' }''
                            @ (case moduleSpecifier g of
                                 None \<Rightarrow> []
                               | Some ms \<Rightarrow> '' from '' @ getText sourceFile ms)
                            @ '';''),
                         True)))
      else if kind node = ExportAssignment then
        Inr (\<lparr>newText = [],
              span = \<lparr>span_start = getFullStart node, span_length = getFullWidth node\<rparr>\<rparr>,
             TrackRemoveExport (fileName sourceFile) (getStart node) (getText sourceFile node),
             False)
      else if (kind node = FunctionDeclaration \<or> kind node = ClassDeclaration)
              \<and> find (\<lambda>n. kind n = Identifier) (getChildren node) = None then
        Inr (\<lparr>newText = [],
              span = \<lparr>span_start = getFullStart node, span_length = getFullWidth node\<rparr>\<rparr>,
             TrackRemoveExport (fileName sourceFile) (getStart node)
               (slice0 (getText sourceFile node)
                  (if kind node = FunctionDeclaration
                   then indexOf (getText sourceFile node) (CHR '')'') + 1
                   else indexOf (getText sourceFile node) (CHR ''{'') - 1)),
             False)
      else
        (case findIndex (\<lambda>n. kind n = SyntaxList) (getChildren node) of
           None \<Rightarrow> Inl SyntaxListNotFound
         | Some syntaxListIndex \<Rightarrow>
             if syntaxListIndex + 1 < length (getChildren node) then
               (let syntaxList = getChildren node ! syntaxListIndex;
                    syntaxListNextSibling = getChildren node ! (syntaxListIndex + 1)
                in Inr (\<lparr>newText = [],
                         span = \<lparr>span_start = getStart syntaxList,
                                 span_length = getStart syntaxListNextSibling
                                               - getStart syntaxList\<rparr>\<rparr>,
                        TrackRemoveExport (fileName sourceFile) (getStart node)
                          (case findFirstNodeOfKind node Identifier of
                             None \<Rightarrow> []
                           | Some i \<Rightarrow> getText sourceFile i),
                        False))
             else Inl SyntaxListNotFound))"

text \<open>
  The loop over the unused nodes. It stops before the next node once \<open>aborted\<close>
  is set; an exception leaves it with what the tracker was told so far.
\<close>

fun getTextChanges_loop ::
  "TS \<Rightarrow> SourceFile \<Rightarrow> NodeRef list \<Rightarrow> TextChange list \<times> bool \<times> EditEvent list
     \<Rightarrow> error option \<times> TextChange list \<times> bool \<times> EditEvent list" where
  "getTextChanges_loop ts sourceFile [] acc = (None, acc)"
| "getTextChanges_loop ts sourceFile (node # nodes) (changes, aborted, log) =
     (if aborted then (None, changes, aborted, log)
      else
        (case getTextChanges_node ts sourceFile node of
           Inl e \<Rightarrow> (Some e, changes, aborted, log)
         | Inr (change, event, abort) \<Rightarrow>
             getTextChanges_loop ts sourceFile nodes (changes @ [change], abort, log @ [event])))"

record TextChanges =
  changes :: "TextChange list"
  is_done :: bool
  isUsed :: bool

text \<open>
  \<open>getTextChanges\<close> returns the log of the tracker with its result or with the
  exception it throws; \<open>None\<close> is a run that does not end. The field \<open>done\<close> of
  the result is \<open>is_done\<close> here.
\<close>

definition getTextChanges ::
  "TS \<Rightarrow> LanguageService \<Rightarrow> string \<Rightarrow> EditEvent list \<Rightarrow> FileService
     \<Rightarrow> (EditEvent list \<times> (error + TextChanges)) option" where
  "getTextChanges ts languageService file log fileService =
     (case (case getProgram languageService of
              None \<Rightarrow> None
            | Some program \<Rightarrow> getSourceFile program file) of
        None \<Rightarrow> Some (log, Inl SourceFileNotFound)
      | Some sourceFile \<Rightarrow>
          (case getUnusedExports ts languageService sourceFile fileService of
             None \<Rightarrow> None
           | Some (Inl e) \<Rightarrow> Some (log, Inl e)
           | Some (Inr (nodes, used)) \<Rightarrow>
               (case getTextChanges_loop ts sourceFile nodes ([], False, log) of
                  (Some e, _, _, log') \<Rightarrow> Some (log', Inl e)
                | (None, cs, aborted, log') \<Rightarrow>
                    Some (log', Inr \<lparr>changes = cs, is_done = \<not> aborted, isUsed = used\<rparr>))))"

text \<open>
  Modelled from the spec: \<open>applyTextChanges\<close> (its source is not among the files).
  A text change is a span with its replacement, applied against the current full
  text of the file; the spans of one batch do not overlap. The changes are
  applied from the last span of the text to the first, so that no change moves
  the span of another. The driver below does not depend on this definition: it
  takes the function it imports as \<open>applyTextChanges\<close> as a parameter,
  \<open>applyChanges\<close>, and this definition is what the runs on concrete files hand
  in.
\<close>

definition applyTextChange :: "string \<Rightarrow> TextChange \<Rightarrow> string" where
  "applyTextChange content c =
     take (span_start (span c)) content @ newText c
     @ drop (span_start (span c) + span_length (span c)) content"

definition applyTextChanges :: "string \<Rightarrow> TextChange list \<Rightarrow> string" where
  "applyTextChanges content cs =
     foldl applyTextChange content (rev (sort_key (\<lambda>c. span_start (span c)) cs))"

section \<open>The removal driver\<close>

text \<open>
  The language service reads the files through the file store, so what it
  answers depends on the state of the store: it is a function of that state,
  asked anew after each write. The program fetched at the start of
  \<open>removeUnusedExport\<close> stays the snapshot it was. The two functions the driver
  imports from files that are not among the sources, \<open>applyTextChanges\<close> and
  \<open>applyCodeFix\<close>, are parameters, \<open>applyChanges\<close> and \<open>applyCodeFix\<close>.
\<close>

text \<open>
  Modelled from the spec: \<open>applyCodeFix\<close> (its source is not among the files):
  given a fix category and a file, the content of the file after one round of
  that fix, or the unchanged content. It is a function handed in, of the fix,
  the file and the state of the store.
\<close>

datatype FixId = fixIdDelete | fixIdDeleteImports

partial_function (option) removeUnusedExport_doWhile ::
  "TS \<Rightarrow> (FileService \<Rightarrow> LanguageService) \<Rightarrow> (string \<Rightarrow> TextChange list \<Rightarrow> string)
     \<Rightarrow> string \<Rightarrow> string \<Rightarrow> FileService \<Rightarrow> EditEvent list
     \<Rightarrow> (error option \<times> bool \<times> string \<times> FileService \<times> EditEvent list) option"
where
  "removeUnusedExport_doWhile ts languageService applyChanges file content fileService log =
     (case getTextChanges ts (languageService fileService) file log fileService of
        None \<Rightarrow> None
      | Some (log', Inl e) \<Rightarrow> Some (Some e, False, content, fileService, log')
      | Some (log', Inr result) \<Rightarrow>
          if is_done result then
            Some (None, isUsed result, applyChanges content (changes result),
                  fs_set fileService file (applyChanges content (changes result)), log')
          else
            removeUnusedExport_doWhile ts languageService applyChanges file
              (applyChanges content (changes result))
              (fs_set fileService file (applyChanges content (changes result))) log')"

partial_function (option) removeUnusedExport_codeFix ::
  "(FixId \<Rightarrow> string \<Rightarrow> FileService \<Rightarrow> string) \<Rightarrow> string \<Rightarrow> string \<Rightarrow> FileService
     \<Rightarrow> (string \<times> FileService) option"
where
  "removeUnusedExport_codeFix applyCodeFix file content fileService =
     (if applyCodeFix fixIdDelete file (fs_set fileService file content) = content
      then Some (content, fs_set fileService file content)
      else removeUnusedExport_codeFix applyCodeFix file
             (applyCodeFix fixIdDelete file (fs_set fileService file content))
             (fs_set fileService file content))"

text \<open>
  The body of the loop over the target files, for one file. The result is the
  exception thrown, if one was, with the file store and the log of the tracker
  as the body leaves them.
\<close>

definition removeUnusedExport_file ::
  "TS \<Rightarrow> (FileService \<Rightarrow> LanguageService) \<Rightarrow> (string \<Rightarrow> TextChange list \<Rightarrow> string)
     \<Rightarrow> (FixId \<Rightarrow> string \<Rightarrow> FileService \<Rightarrow> string) \<Rightarrow> bool \<Rightarrow> bool \<Rightarrow> Program \<Rightarrow> string \<Rightarrow> FileService \<times> EditEvent list
     \<Rightarrow> (error option \<times> FileService \<times> EditEvent list) option" where
  "removeUnusedExport_file ts languageService applyChanges applyCodeFix deleteUnusedFile enableCodeFix
       program file st =
     (case getSourceFile program file of
        None \<Rightarrow> Some (None, st)
      | Some sourceFile \<Rightarrow>
          (case removeUnusedExport_doWhile ts languageService applyChanges file (fs_get (fst st) file)
                  (fst st) (snd st @ [TrackStart file (getFullText sourceFile)]) of
             None \<Rightarrow> None
           | Some (Some e, _, _, fileService, log) \<Rightarrow> Some (Some e, fileService, log)
           | Some (None, used, content, fileService, log) \<Rightarrow>
               if \<not> used \<and> deleteUnusedFile then
                 Some (None, fs_delete fileService file, log @ [TrackDelete file])
               else if enableCodeFix then
                 (case removeUnusedExport_codeFix applyCodeFix file content fileService of
                    None \<Rightarrow> None
                  | Some (content', fileService') \<Rightarrow>
                      Some (None,
                            fs_set (fs_set fileService' file content') file
                              (applyCodeFix fixIdDeleteImports file
                                 (fs_set fileService' file content')),
                            log @ [TrackEnd file]))
               else Some (None, fs_set fileService file content, log @ [TrackEnd file])))"

fun removeUnusedExport_each ::
  "TS \<Rightarrow> (FileService \<Rightarrow> LanguageService) \<Rightarrow> (string \<Rightarrow> TextChange list \<Rightarrow> string)
     \<Rightarrow> (FixId \<Rightarrow> string \<Rightarrow> FileService \<Rightarrow> string) \<Rightarrow> bool \<Rightarrow> bool \<Rightarrow> Program \<Rightarrow> string list \<Rightarrow> FileService \<times> EditEvent list
     \<Rightarrow> (error option \<times> FileService \<times> EditEvent list) option" where
  "removeUnusedExport_each ts languageService applyChanges applyCodeFix deleteUnusedFile enableCodeFix
       program [] st = Some (None, st)"
| "removeUnusedExport_each ts languageService applyChanges applyCodeFix deleteUnusedFile enableCodeFix
       program (file # files) st =
     (case removeUnusedExport_file ts languageService applyChanges applyCodeFix deleteUnusedFile
             enableCodeFix program file st of
        None \<Rightarrow> None
      | Some (Some e, st') \<Rightarrow> Some (Some e, st')
      | Some (None, st') \<Rightarrow>
          removeUnusedExport_each ts languageService applyChanges applyCodeFix deleteUnusedFile
            enableCodeFix program files st')"

text \<open>
  \<open>removeUnusedExport\<close>; \<open>targetFile\<close> is the list of the target files (one file
  is the list of that file), and the log is that of the tracker passed in.
\<close>

definition removeUnusedExport ::
  "TS \<Rightarrow> (FileService \<Rightarrow> LanguageService) \<Rightarrow> (string \<Rightarrow> TextChange list \<Rightarrow> string)
     \<Rightarrow> (FixId \<Rightarrow> string \<Rightarrow> FileService \<Rightarrow> string) \<Rightarrow> FileService \<Rightarrow> string list \<Rightarrow> bool \<Rightarrow> bool \<Rightarrow> EditEvent list
     \<Rightarrow> (error option \<times> FileService \<times> EditEvent list) option" where
  "removeUnusedExport ts languageService applyChanges applyCodeFix fileService targetFile deleteUnusedFile
       enableCodeFix log =
     (case getProgram (languageService fileService) of
        None \<Rightarrow> Some (Some ProgramNotFound, fileService, log)
      | Some program \<Rightarrow>
          removeUnusedExport_each ts languageService applyChanges applyCodeFix deleteUnusedFile
            enableCodeFix program targetFile (fileService, log))"

section \<open>Properties of the walk\<close>

text \<open>The walk stops at a wildcard re-export and at a target; it enters every other node.\<close>

definition isLeaf :: "Node \<Rightarrow> bool" where
  "isLeaf node = ((kind node = ExportDeclaration \<and> exportClause node = None) \<or> isTarget node)"

text \<open>The nodes the walk of a file reaches, each with its ancestors.\<close>

inductive walked :: "SourceFile \<Rightarrow> Node list \<Rightarrow> Node \<Rightarrow> bool" for sf where
  top: "node \<in> set (forEachChild (root sf)) \<Longrightarrow> walked sf [root sf] node"
| child: "walked sf anc n \<Longrightarrow> \<not> isLeaf n \<Longrightarrow> node \<in> set (forEachChild n)
          \<Longrightarrow> walked sf (n # anc) node"

lemma visit_leaf_cases:
  assumes "isLeaf node"
    and "visit ts ls fs p sf anc node st = Some (Inr st')"
  shows "st' = st \<or> st' = (fst st, True) \<or> st' = (fst st @ [(node, anc)], snd st)"
  using assms unfolding isLeaf_def
  apply (subst (asm) visit.simps)
  apply (simp split: if_splits sum.splits option.splits bool.splits)
  done

lemma visit_inner:
  "\<not> isLeaf node \<Longrightarrow>
   visit ts ls fs p sf anc node st = visit_each ts ls fs p sf (node # anc) (forEachChild node) st"
  unfolding isLeaf_def by (subst visit.simps) auto

lemma visit_each_Cons_Inr:
  "visit_each ts ls fs p sf anc (c # cs) st = Some (Inr st') \<Longrightarrow>
   \<exists>st1. visit ts ls fs p sf anc c st = Some (Inr st1)
        \<and> visit_each ts ls fs p sf anc cs st1 = Some (Inr st')"
  by (auto split: option.splits sum.splits)

lemma visit_mono:
  "visit ts ls fs p sf anc node st = Some (Inr st') \<Longrightarrow>
     set (fst st) \<subseteq> set (fst st') \<and> (snd st \<longrightarrow> snd st')"
  "visit_each ts ls fs p sf anc cs st = Some (Inr st') \<Longrightarrow>
     set (fst st) \<subseteq> set (fst st') \<and> (snd st \<longrightarrow> snd st')"
proof (induction ts ls fs p sf anc node st and ts ls fs p sf anc cs st
       arbitrary: st' and st' rule: visit_visit_each.induct)
  case (1 ts ls fs p sf anc node st)
  show ?case
  proof (cases "isLeaf node")
    case True
    from visit_leaf_cases[OF True "1.prems"] show ?thesis by auto
  next
    case False
    then have a: "\<not> (kind node = ExportDeclaration \<and> exportClause node = None)"
      and b: "\<not> isTarget node" by (auto simp: isLeaf_def)
    from "1.prems" have "visit_each ts ls fs p sf (node # anc) (forEachChild node) st = Some (Inr st')"
      by (simp add: visit_inner[OF False])
    from "1.IH"[OF a b this] show ?thesis .
  qed
next
  case (2 ts ls fs p sf anc st)
  then show ?case by simp
next
  case (3 ts ls fs p sf anc c cs st)
  from visit_each_Cons_Inr[OF "3.prems"] obtain st1 where
    v: "visit ts ls fs p sf anc c st = Some (Inr st1)"
    and r: "visit_each ts ls fs p sf anc cs st1 = Some (Inr st')" by blast
  from "3.IH"(1)[OF v] "3.IH"(2)[OF v refl r] show ?case by blast
qed

text \<open>Every node pushed was pushed by the visit of that very node, a leaf of the walk.\<close>

definition pushedAt ::
  "TS \<Rightarrow> LanguageService \<Rightarrow> FileService \<Rightarrow> Program \<Rightarrow> SourceFile \<Rightarrow> NodeRef \<Rightarrow> bool" where
  "pushedAt ts ls fs p sf x =
     (isLeaf (fst x) \<and>
      (\<exists>st0. visit ts ls fs p sf (snd x) (fst x) st0 = Some (Inr (fst st0 @ [x], snd st0))))"

lemma visit_origin:
  "visit ts ls fs p sf anc node st = Some (Inr st') \<Longrightarrow>
     \<forall>x \<in> set (fst st'). x \<in> set (fst st) \<or> pushedAt ts ls fs p sf x"
  "visit_each ts ls fs p sf anc cs st = Some (Inr st') \<Longrightarrow>
     \<forall>x \<in> set (fst st'). x \<in> set (fst st) \<or> pushedAt ts ls fs p sf x"
proof (induction ts ls fs p sf anc node st and ts ls fs p sf anc cs st
       arbitrary: st' and st' rule: visit_visit_each.induct)
  case (1 ts ls fs p sf anc node st)
  show ?case
  proof (cases "isLeaf node")
    case True
    from visit_leaf_cases[OF True "1.prems"]
    consider "st' = st" | "st' = (fst st, True)" | "st' = (fst st @ [(node, anc)], snd st)"
      by blast
    then show ?thesis
    proof cases
      case 3
      with "1.prems" True have "pushedAt ts ls fs p sf (node, anc)"
        unfolding pushedAt_def by (intro conjI exI[of _ st]) simp_all
      with 3 show ?thesis by auto
    qed auto
  next
    case False
    then have a: "\<not> (kind node = ExportDeclaration \<and> exportClause node = None)"
      and b: "\<not> isTarget node" by (auto simp: isLeaf_def)
    from "1.prems" have "visit_each ts ls fs p sf (node # anc) (forEachChild node) st = Some (Inr st')"
      by (simp add: visit_inner[OF False])
    from "1.IH"[OF a b this] show ?thesis .
  qed
next
  case (2 ts ls fs p sf anc st)
  then show ?case by simp
next
  case (3 ts ls fs p sf anc c cs st)
  from visit_each_Cons_Inr[OF "3.prems"] obtain st1 where
    v: "visit ts ls fs p sf anc c st = Some (Inr st1)"
    and r: "visit_each ts ls fs p sf anc cs st1 = Some (Inr st')" by blast
  from "3.IH"(1)[OF v] "3.IH"(2)[OF v refl r] show ?case by blast
qed

lemma visit_each_member:
  "node \<in> set cs \<Longrightarrow> visit_each ts ls fs p sf anc cs st = Some (Inr st') \<Longrightarrow>
   \<exists>st1 st2. visit ts ls fs p sf anc node st1 = Some (Inr st2)
      \<and> set (fst st2) \<subseteq> set (fst st') \<and> (snd st2 \<longrightarrow> snd st')"
proof (induction cs arbitrary: st)
  case Nil
  then show ?case by simp
next
  case (Cons c cs)
  from visit_each_Cons_Inr[OF Cons.prems(2)] obtain st1 where
    v: "visit ts ls fs p sf anc c st = Some (Inr st1)"
    and r: "visit_each ts ls fs p sf anc cs st1 = Some (Inr st')" by blast
  show ?case
  proof (cases "node = c")
    case True
    with v visit_mono(2)[OF r] show ?thesis by blast
  next
    case False
    with Cons.prems(1) have "node \<in> set cs" by simp
    from Cons.IH[OF this r] show ?thesis .
  qed
qed

lemma walked_visited:
  assumes "walked sf anc node"
    and "visit_each ts ls fs p sf [root sf] (forEachChild (root sf)) st = Some (Inr st')"
  shows "\<exists>st1 st2. visit ts ls fs p sf anc node st1 = Some (Inr st2)
      \<and> set (fst st2) \<subseteq> set (fst st') \<and> (snd st2 \<longrightarrow> snd st')"
  using assms
proof (induction rule: walked.induct)
  case (top node)
  from visit_each_member[OF top(1) top(2)] show ?case .
next
  case (child anc n node)
  from child.IH[OF child.prems] obtain st1 st2 where
    v: "visit ts ls fs p sf anc n st1 = Some (Inr st2)"
    and s: "set (fst st2) \<subseteq> set (fst st')" "snd st2 \<longrightarrow> snd st'" by blast
  from v child.hyps(2) have
    "visit_each ts ls fs p sf (n # anc) (forEachChild n) st1 = Some (Inr st2)"
    by (simp add: visit_inner)
  from visit_each_member[OF child.hyps(3) this] s show ?case by blast
qed

lemma visit_plain:
  assumes "isDeclarationKind (kind node) \<or> kind node = ExportAssignment"
    and "isTarget node"
    and "\<not> str_includes (getLeadingComment ts sf node) IGNORE_COMMENT"
    and "findReferences sf node ls = Inr (Some refs)"
  shows "visit ts ls fs p sf anc node st =
     Some (Inr (if keptReferences (\<lambda>v. definition_fileName v \<noteq> fileName sf) refs = []
                then (fst st @ [(node, anc)], snd st) else (fst st, True)))"
proof -
  from assms(1) have k: "kind node \<noteq> ExportDeclaration" "kind node \<noteq> ExportSpecifier"
    by (auto simp: isDeclarationKind_def)
  then have r: "isReexport node anc = Inr False" by (simp add: isReexport_def)
  show ?thesis
    by (subst visit.simps) (simp add: k r assms)
qed

lemma visit_skip:
  assumes "isTarget node"
    and "str_includes (getLeadingComment ts sf node) IGNORE_COMMENT"
  shows "visit ts ls fs p sf anc node st = Some (Inr (fst st, True))"
  by (subst visit.simps) (simp add: assms)

lemma isTarget_isLeaf: "isTarget node \<Longrightarrow> isLeaf node"
  by (simp add: isLeaf_def)

lemma getUnusedExports_run:
  "getUnusedExports ts ls sf fs = Some (Inr (nodes, used)) \<Longrightarrow>
   \<exists>p. getProgram ls = Some p
     \<and> visit_each ts ls fs p sf [root sf] (forEachChild (root sf)) ([], False)
         = Some (Inr (nodes, used))"
  by (auto simp: getUnusedExports_def split: option.splits)

lemma removeExport_isTarget_skip:
  "str_includes (getLeadingComment ts sf node) IGNORE_COMMENT \<Longrightarrow>
   \<not> removeExport_isTarget ts sf node"
  by (simp add: removeExport_isTarget_def)

lemma getFirstUnusedExport_target:
  "getFirstUnusedExport_visit ts ls sf node res = Inr (Some r) \<Longrightarrow>
     res = Some r \<or> removeExport_isTarget ts sf r"
  "getFirstUnusedExport_each ts ls sf cs res = Inr (Some r) \<Longrightarrow>
     res = Some r \<or> removeExport_isTarget ts sf r"
proof (induction ts ls sf node res and ts ls sf cs res
       rule: getFirstUnusedExport_visit_getFirstUnusedExport_each.induct)
  case (1 ts service sourceFile node result)
  show ?case
  proof (cases result)
    case (Some a)
    with "1.prems" show ?thesis by (simp add: getFirstUnusedExport_visit.simps)
  next
    case None
    note n = None
    show ?thesis
    proof (cases "removeExport_isTarget ts sourceFile node")
      case False
      with "1.prems" n have
        "getFirstUnusedExport_each ts service sourceFile (forEachChild node) None = Inr (Some r)"
        by (simp add: getFirstUnusedExport_visit.simps)
      from "1.IH"(2)[OF n False this] show ?thesis by simp
    next
      case True
      show ?thesis
      proof (cases "removeExport_findReferences sourceFile node service")
        case (Inl e)
        with "1.prems" n True show ?thesis by (simp add: getFirstUnusedExport_visit.simps)
      next
        case (Inr ro)
        show ?thesis
        proof (cases ro)
          case None
          with "1.prems" n True Inr show ?thesis by (simp add: getFirstUnusedExport_visit.simps)
        next
          case (Some refs)
          show ?thesis
          proof (cases "(kind node = ExportSpecifier \<and> length (flatReferences refs) = 2)
                        \<or> length (flatReferences refs) = 1")
            case t: True
            with "1.prems" n True Inr Some have "r = node"
              by (auto simp: getFirstUnusedExport_visit.simps)
            with True show ?thesis by simp
          next
            case f: False
            with "1.prems" n True Inr Some have
              "getFirstUnusedExport_each ts service sourceFile (forEachChild node) None = Inr (Some r)"
              by (auto simp: getFirstUnusedExport_visit.simps)
            from "1.IH"(1)[OF n True Inr Some _ _ this] f show ?thesis by auto
          qed
        qed
      qed
    qed
  qed
next
  case (2 ts service sourceFile result)
  then show ?case by simp
next
  case (3 ts service sourceFile c cs result)
  from "3.prems" obtain res' where
    v: "getFirstUnusedExport_visit ts service sourceFile c result = Inr res'"
    and e: "getFirstUnusedExport_each ts service sourceFile cs res' = Inr (Some r)"
    by (auto split: sum.splits)
  from "3.IH"(2)[OF v e] "3.IH"(1) v show ?case by auto
qed

lemma getFirstUnusedExport_inside:
  "getFirstUnusedExport_visit ts ls sf node res = Inr (Some r) \<Longrightarrow>
     res = Some r \<or> size r \<le> size node"
  "getFirstUnusedExport_each ts ls sf cs res = Inr (Some r) \<Longrightarrow>
     res = Some r \<or> size r < size_list size cs"
proof (induction ts ls sf node res and ts ls sf cs res
       rule: getFirstUnusedExport_visit_getFirstUnusedExport_each.induct)
  case (1 ts service sourceFile node result)
  have inner: "size r \<le> size node"
    if "getFirstUnusedExport_each ts service sourceFile (forEachChild node) None = Inr (Some r)"
      and "None = Some r \<or> size r < size_list size (forEachChild node)"
    using that size_forEachChild[of node] by simp
  show ?case
  proof (cases result)
    case (Some a)
    with "1.prems" show ?thesis by (simp add: getFirstUnusedExport_visit.simps)
  next
    case None
    note n = None
    show ?thesis
    proof (cases "removeExport_isTarget ts sourceFile node")
      case False
      with "1.prems" n have e:
        "getFirstUnusedExport_each ts service sourceFile (forEachChild node) None = Inr (Some r)"
        by (simp add: getFirstUnusedExport_visit.simps)
      from inner[OF e "1.IH"(2)[OF n False e]] show ?thesis by simp
    next
      case True
      show ?thesis
      proof (cases "removeExport_findReferences sourceFile node service")
        case (Inl e)
        with "1.prems" n True show ?thesis by (simp add: getFirstUnusedExport_visit.simps)
      next
        case (Inr ro)
        show ?thesis
        proof (cases ro)
          case None
          with "1.prems" n True Inr show ?thesis by (simp add: getFirstUnusedExport_visit.simps)
        next
          case (Some refs)
          show ?thesis
          proof (cases "(kind node = ExportSpecifier \<and> length (flatReferences refs) = 2)
                        \<or> length (flatReferences refs) = 1")
            case t: True
            with "1.prems" n True Inr Some have "r = node"
              by (auto simp: getFirstUnusedExport_visit.simps)
            then show ?thesis by simp
          next
            case f: False
            with "1.prems" n True Inr Some have e:
              "getFirstUnusedExport_each ts service sourceFile (forEachChild node) None = Inr (Some r)"
              by (auto simp: getFirstUnusedExport_visit.simps)
            from f have f1: "\<not> (kind node = ExportSpecifier \<and> length (flatReferences refs) = 2)"
              and f2: "length (flatReferences refs) \<noteq> 1" by auto
            from inner[OF e "1.IH"(1)[OF n True Inr Some f1 f2 e]] show ?thesis by simp
          qed
        qed
      qed
    qed
  qed
next
  case (2 ts service sourceFile result)
  then show ?case by simp
next
  case (3 ts service sourceFile c cs result)
  from "3.prems" obtain res' where
    v: "getFirstUnusedExport_visit ts service sourceFile c result = Inr res'"
    and e: "getFirstUnusedExport_each ts service sourceFile cs res' = Inr (Some r)"
    by (auto split: sum.splits)
  from "3.IH"(2)[OF v e] "3.IH"(1) v show ?case by auto
qed

text \<open>
  The visit of a target, and when it puts the target in the list of unused nodes:
  the same for every state of the walk it starts from.
\<close>

lemma visit_target:
  assumes "isTarget node"
  shows "visit ts ls fs p sf anc node st =
     (if str_includes (getLeadingComment ts sf node) IGNORE_COMMENT then Some (Inr (fst st, True))
      else
        (case findReferences sf node ls of
           Inl e \<Rightarrow> Some (Inl e)
         | Inr None \<Rightarrow> Some (Inr st)
         | Inr (Some refs) \<Rightarrow>
             (case isReexport node anc of
                Inl e \<Rightarrow> Some (Inl e)
              | Inr True \<Rightarrow>
                  (case getAncestorFiles (node, anc) refs fs p (fileName sf) of
                     None \<Rightarrow> None
                   | Some (Inl e) \<Rightarrow> Some (Inl e)
                   | Some (Inr None) \<Rightarrow> Some (Inr (fst st, True))
                   | Some (Inr (Some ancestors)) \<Rightarrow>
                       if keptReferences
                            (\<lambda>v. definition_fileName v \<noteq> fileName sf
                                 \<and> definition_fileName v \<notin> ancestors) refs = []
                       then Some (Inr (fst st @ [(node, anc)], snd st))
                       else Some (Inr (fst st, True)))
              | Inr False \<Rightarrow>
                  if keptReferences (\<lambda>v. definition_fileName v \<noteq> fileName sf) refs = []
                  then Some (Inr (fst st @ [(node, anc)], snd st))
                  else Some (Inr (fst st, True)))))"
proof -
  from assms have k: "kind node \<noteq> ExportDeclaration"
    by (auto simp: isTarget_def isDeclarationKind_def split: if_splits)
  show ?thesis
    by (subst visit.simps)
       (simp add: k assms split: sum.splits option.splits bool.splits)
qed

lemma push_neq: "(xs, True) \<noteq> (xs @ [x], b)" "(xs, b) \<noteq> (xs @ [x], c)" "st \<noteq> (fst st @ [x], snd st)"
  by (auto simp: prod_eq_iff)

lemma visit_pushes_iff:
  assumes "isTarget node"
  shows "visit ts ls fs p sf anc node st = Some (Inr (fst st @ [(node, anc)], snd st))
     \<longleftrightarrow> \<not> str_includes (getLeadingComment ts sf node) IGNORE_COMMENT
         \<and> (\<exists>refs. findReferences sf node ls = Inr (Some refs)
              \<and> (isReexport node anc = Inr False
                    \<and> keptReferences (\<lambda>v. definition_fileName v \<noteq> fileName sf) refs = []
                  \<or> isReexport node anc = Inr True
                    \<and> (\<exists>ancestors.
                          getAncestorFiles (node, anc) refs fs p (fileName sf)
                            = Some (Inr (Some ancestors))
                        \<and> keptReferences
                             (\<lambda>v. definition_fileName v \<noteq> fileName sf
                                  \<and> definition_fileName v \<notin> ancestors) refs = [])))"
  unfolding visit_target[OF assms]
  by (simp add: push_neq split: sum.splits option.splits bool.splits)

lemma visit_pushes_any:
  assumes "isTarget node"
    and "visit ts ls fs p sf anc node st = Some (Inr (fst st @ [(node, anc)], snd st))"
  shows "visit ts ls fs p sf anc node st' = Some (Inr (fst st' @ [(node, anc)], snd st'))"
  using assms(2) unfolding visit_pushes_iff[OF assms(1)] .

lemma walk_pushes:
  assumes run: "visit_each ts ls fs p sf [root sf] (forEachChild (root sf)) ([], False)
                  = Some (Inr (nodes, used))"
    and w: "walked sf anc node"
    and t: "isTarget node"
  shows "(node, anc) \<in> set nodes
     \<longleftrightarrow> visit ts ls fs p sf anc node ([], False) = Some (Inr ([(node, anc)], False))"
proof
  assume "(node, anc) \<in> set nodes"
  with visit_origin(2)[OF run] have "pushedAt ts ls fs p sf (node, anc)" by auto
  then obtain st0 where
    "visit ts ls fs p sf anc node st0 = Some (Inr (fst st0 @ [(node, anc)], snd st0))"
    by (auto simp: pushedAt_def)
  from visit_pushes_any[OF t this, of "([], False)"]
  show "visit ts ls fs p sf anc node ([], False) = Some (Inr ([(node, anc)], False))"
    by simp
next
  assume a: "visit ts ls fs p sf anc node ([], False) = Some (Inr ([(node, anc)], False))"
  from walked_visited[OF w run] obtain st1 st2 where
    v: "visit ts ls fs p sf anc node st1 = Some (Inr st2)"
    and s: "set (fst st2) \<subseteq> set nodes" by auto
  from a have "visit ts ls fs p sf anc node ([], False)
                 = Some (Inr (fst ([], False) @ [(node, anc)], snd ([], False)))" by simp
  from visit_pushes_any[OF t this]
  have "visit ts ls fs p sf anc node st1 = Some (Inr (fst st1 @ [(node, anc)], snd st1))" .
  with v have "st2 = (fst st1 @ [(node, anc)], snd st1)" by simp
  with s show "(node, anc) \<in> set nodes" by auto
qed


text \<open>
  A reference set in which every reference lies in the file of the definition of
  its referenced symbol. For such a set the references kept by the filter on the
  file of the definition are the references that lie in another file.
\<close>

definition groupedByFile :: "ReferencedSymbol list \<Rightarrow> bool" where
  "groupedByFile refs =
     list_all (\<lambda>v. list_all (\<lambda>r. ref_fileName r = definition_fileName v) (references v)) refs"

lemma kept_grouped_by:
  "groupedByFile refs \<Longrightarrow>
   keptReferences (\<lambda>v. P (definition_fileName v)) refs
     = filter (\<lambda>r. P (ref_fileName r)) (flatReferences refs)"
proof (induction refs)
  case Nil
  then show ?case by (simp add: keptReferences_def flatReferences_def)
next
  case (Cons v refs)
  from Cons.prems have g: "list_all (\<lambda>r. ref_fileName r = definition_fileName v) (references v)"
    and r: "groupedByFile refs" by (simp_all add: groupedByFile_def)
  from g have "filter (\<lambda>r. P (ref_fileName r)) (references v)
      = (if P (definition_fileName v) then references v else [])"
    by (auto simp: list_all_iff filter_id_conv filter_empty_conv)
  with Cons.IH[OF r] show ?case
    by (simp add: keptReferences_def flatReferences_def)
qed

lemma kept_grouped:
  assumes "groupedByFile refs"
  shows "keptReferences (\<lambda>v. definition_fileName v \<noteq> f) refs
           = filter (\<lambda>r. ref_fileName r \<noteq> f) (flatReferences refs)"
    and "keptReferences (\<lambda>v. definition_fileName v \<noteq> f \<and> definition_fileName v \<notin> a) refs
           = filter (\<lambda>r. ref_fileName r \<noteq> f \<and> ref_fileName r \<notin> a) (flatReferences refs)"
  using kept_grouped_by[OF assms, where P = "\<lambda>n. n \<noteq> f"]
    kept_grouped_by[OF assms, where P = "\<lambda>n. n \<noteq> f \<and> n \<notin> a"]
  by simp_all

section \<open>Properties of the driver\<close>

definition isRemoveExport :: "EditEvent \<Rightarrow> bool" where
  "isRemoveExport e = (case e of TrackRemoveExport f pos code \<Rightarrow> True | _ \<Rightarrow> False)"

lemma getTextChanges_node_event:
  "getTextChanges_node ts sf nr = Inr (c, ev, ab) \<Longrightarrow> isRemoveExport ev"
  unfolding getTextChanges_node_def Let_def
  by (auto simp: isRemoveExport_def split: if_splits sum.splits option.splits)

lemma getTextChanges_loop_log:
  "getTextChanges_loop ts sf nodes (cs, ab, log) = (err, cs', ab', log') \<Longrightarrow>
   \<exists>evs. log' = log @ evs \<and> list_all isRemoveExport evs"
proof (induction nodes arbitrary: cs ab log)
  case Nil
  then show ?case by simp
next
  case (Cons n nodes)
  show ?case
  proof (cases ab)
    case True
    with Cons.prems show ?thesis by simp
  next
    case False
    note nab = False
    show ?thesis
    proof (cases "getTextChanges_node ts sf n")
      case (Inl e)
      with Cons.prems nab show ?thesis by simp
    next
      case (Inr r)
      obtain c ev a where r: "r = (c, ev, a)" by (cases r) auto
      from Cons.prems nab Inr r have
        "getTextChanges_loop ts sf nodes (cs @ [c], a, log @ [ev]) = (err, cs', ab', log')"
        by simp
      from Cons.IH[OF this] obtain evs where
        "log' = (log @ [ev]) @ evs" "list_all isRemoveExport evs" by blast
      moreover from Inr r have "isRemoveExport ev"
        by (auto intro: getTextChanges_node_event)
      ultimately have "log' = log @ (ev # evs) \<and> list_all isRemoveExport (ev # evs)" by simp
      then show ?thesis by blast
    qed
  qed
qed

lemma getTextChanges_log:
  assumes "getTextChanges ts ls file log fs = Some (log', res)"
  shows "\<exists>evs. log' = log @ evs \<and> list_all isRemoveExport evs"
proof (cases "case getProgram ls of None \<Rightarrow> None | Some program \<Rightarrow> getSourceFile program file")
  case None
  with assms show ?thesis by (simp add: getTextChanges_def)
next
  case (Some sf)
  show ?thesis
  proof (cases "getUnusedExports ts ls sf fs")
    case None
    with assms Some show ?thesis by (simp add: getTextChanges_def)
  next
    case s: (Some r)
    show ?thesis
    proof (cases r)
      case (Inl e)
      with assms Some s show ?thesis by (simp add: getTextChanges_def)
    next
      case (Inr nu)
      obtain nodes used where nu: "nu = (nodes, used)" by (cases nu) auto
      obtain err cs ab l where l: "getTextChanges_loop ts sf nodes ([], False, log) = (err, cs, ab, l)"
        by (cases "getTextChanges_loop ts sf nodes ([], False, log)") auto
      from assms Some s Inr nu l have "log' = l"
        by (cases err) (auto simp: getTextChanges_def)
      with getTextChanges_loop_log[OF l] show ?thesis by simp
    qed
  qed
qed

text \<open>What a pass of \<open>getTextChanges\<close> that returns says of the file it scanned.\<close>

lemma getTextChanges_Inr:
  assumes "getTextChanges ts ls file log fs = Some (log', Inr result)"
  shows "\<exists>p sf nodes.
           getProgram ls = Some p \<and> getSourceFile p file = Some sf
         \<and> getUnusedExports ts ls sf fs = Some (Inr (nodes, isUsed result))
         \<and> getTextChanges_loop ts sf nodes ([], False, log) = (None, changes result, \<not> is_done result, log')"
proof -
  from assms obtain sf where sf:
    "(case getProgram ls of None \<Rightarrow> None | Some program \<Rightarrow> getSourceFile program file) = Some sf"
    by (auto simp: getTextChanges_def split: option.splits)
  then obtain p where p: "getProgram ls = Some p" "getSourceFile p file = Some sf"
    by (auto split: option.splits)
  from assms sf obtain nodes used where nu:
    "getUnusedExports ts ls sf fs = Some (Inr (nodes, used))"
    by (auto simp: getTextChanges_def split: option.splits sum.splits)
  obtain err cs ab l where l: "getTextChanges_loop ts sf nodes ([], False, log) = (err, cs, ab, l)"
    by (cases "getTextChanges_loop ts sf nodes ([], False, log)") auto
  from assms sf nu l have "err = None" "result = \<lparr>changes = cs, is_done = \<not> ab, isUsed = used\<rparr>"
    "log' = l"
    by (cases err; auto simp: getTextChanges_def)+
  with p nu l show ?thesis by auto
qed

lemma applyTextChanges_Nil [simp]: "applyTextChanges content [] = content"
  by (simp add: applyTextChanges_def)

text \<open>Induction over the passes of a loop that ends.\<close>

lemma doWhile_induct [consumes 1, case_names error stop continue]:
  assumes run: "removeUnusedExport_doWhile ts ls atc fl content fs log = Some y"
    and err: "\<And>content fs log log1 e.
        getTextChanges ts (ls fs) fl log fs = Some (log1, Inl e)
        \<Longrightarrow> Q content fs log (Some e, False, content, fs, log1)"
    and stop: "\<And>content fs log log1 result.
        getTextChanges ts (ls fs) fl log fs = Some (log1, Inr result) \<Longrightarrow> is_done result
        \<Longrightarrow> Q content fs log
              (None, isUsed result, atc content (changes result),
               fs_set fs fl (atc content (changes result)), log1)"
    and continue: "\<And>content fs log log1 result y.
        getTextChanges ts (ls fs) fl log fs = Some (log1, Inr result) \<Longrightarrow> \<not> is_done result
        \<Longrightarrow> Q (atc content (changes result))
              (fs_set fs fl (atc content (changes result))) log1 y
        \<Longrightarrow> Q content fs log y"
  shows "Q content fs log y"
proof -
  have "ts' = ts \<and> ls' = ls \<and> atc' = atc \<and> fl' = fl \<longrightarrow> Q content' fs' log' y'"
    if "removeUnusedExport_doWhile ts' ls' atc' fl' content' fs' log' = Some y'"
    for ts' ls' atc' fl' content' fs' log' y'
  proof (rule removeUnusedExport_doWhile.raw_induct
      [where P = "\<lambda>ts' ls' atc' fl' content' fs' log' y'.
                    ts' = ts \<and> ls' = ls \<and> atc' = atc \<and> fl' = fl \<longrightarrow> Q content' fs' log' y'", OF _ that])
    fix dw ts' ls' atc' fl' content' fs' log' y'
    assume IH: "\<And>ts' ls' atc' fl' content' fs' log' y'. dw ts' ls' atc' fl' content' fs' log' = Some y'
                  \<Longrightarrow> ts' = ts \<and> ls' = ls \<and> atc' = atc \<and> fl' = fl \<longrightarrow> Q content' fs' log' y'"
      and step: "(case getTextChanges ts' (ls' fs') fl' log' fs' of
          None \<Rightarrow> None
        | Some (log1, Inl e) \<Rightarrow> Some (Some e, False, content', fs', log1)
        | Some (log1, Inr result) \<Rightarrow>
            if is_done result then
              Some (None, isUsed result, atc' content' (changes result),
                    fs_set fs' fl' (atc' content' (changes result)), log1)
            else
              dw ts' ls' atc' fl'
                (atc' content' (changes result))
                (fs_set fs' fl' (atc' content' (changes result))) log1) = Some y'"
    show "ts' = ts \<and> ls' = ls \<and> atc' = atc \<and> fl' = fl \<longrightarrow> Q content' fs' log' y'"
    proof
      assume eq: "ts' = ts \<and> ls' = ls \<and> atc' = atc \<and> fl' = fl"
      from step obtain log1 res where
        g: "getTextChanges ts' (ls' fs') fl' log' fs' = Some (log1, res)"
        by (cases "getTextChanges ts' (ls' fs') fl' log' fs'") auto
      show "Q content' fs' log' y'"
      proof (cases res)
        case (Inl e)
        with step g have "y' = (Some e, False, content', fs', log1)" by simp
        with err[of fs' log' log1 e content'] g Inl eq show ?thesis by simp
      next
        case (Inr result)
        show ?thesis
        proof (cases "is_done result")
          case True
          with step g Inr have
            "y' = (None, isUsed result, atc' content' (changes result),
                   fs_set fs' fl' (atc' content' (changes result)), log1)"
            by simp
          with stop[of fs' log' log1 result content'] g Inr eq True show ?thesis by simp
        next
          case False
          with step g Inr have
            "dw ts' ls' atc' fl' (atc' content' (changes result))
               (fs_set fs' fl' (atc' content' (changes result))) log1 = Some y'"
            by simp
          from IH[OF this] eq have
            "Q (atc' content' (changes result))
               (fs_set fs' fl' (atc' content' (changes result))) log1 y'" by simp
          with continue[of fs' log' log1 result content' y'] g Inr eq False show ?thesis by simp
        qed
      qed
    qed
  qed
  from this[OF run] show ?thesis by simp
qed

lemma doWhile_props:
  assumes "removeUnusedExport_doWhile ts ls atc fl content fs log = Some y"
  shows "(\<exists>evs. snd (snd (snd (snd y))) = log @ evs \<and> list_all isRemoveExport evs)
       \<and> (\<forall>g. g \<noteq> fl \<longrightarrow> fst (snd (snd (snd y))) g = fs g)
       \<and> (fs fl \<noteq> None \<longrightarrow> fst (snd (snd (snd y))) fl \<noteq> None)
       \<and> (fst y = None \<longrightarrow> fst (snd (snd (snd y))) fl = Some (fst (snd (snd y))))"
  using assms
proof (induction rule: doWhile_induct)
  case (error content fs log log1 e)
  from getTextChanges_log[OF error] show ?case by auto
next
  case (stop content fs log log1 result)
  from getTextChanges_log[OF stop(1)] show ?case by (auto simp: fs_set_def)
next
  case (continue content fs log log1 result y)
  from getTextChanges_log[OF continue(1)] obtain evs1 where
    e1: "log1 = log @ evs1" "list_all isRemoveExport evs1" by blast
  from continue(3) obtain evs where
    e2: "snd (snd (snd (snd y))) = log1 @ evs" "list_all isRemoveExport evs" by blast
  from e1 e2 have "snd (snd (snd (snd y))) = log @ (evs1 @ evs)"
    "list_all isRemoveExport (evs1 @ evs)" by simp_all
  then have "\<exists>evs. snd (snd (snd (snd y))) = log @ evs \<and> list_all isRemoveExport evs"
    by blast
  with continue(3) show ?case by (auto simp: fs_set_def)
qed

lemma wildcard_used:
  assumes "getUnusedExports ts ls sf fs = Some (Inr (nodes, used))"
    and "walked sf anc w"
    and "kind w = ExportDeclaration" "exportClause w = None"
  shows "used"
proof -
  from getUnusedExports_run[OF assms(1)] obtain p where
    r: "visit_each ts ls fs p sf [root sf] (forEachChild (root sf)) ([], False)
          = Some (Inr (nodes, used))" by blast
  have "visit ts ls fs p sf anc w st = Some (Inr (fst st, True))" for st
    by (subst visit.simps) (simp add: assms(3,4))
  with walked_visited[OF assms(2) r] show ?thesis by auto
qed

definition hasWildcard :: "SourceFile \<Rightarrow> bool" where
  "hasWildcard sf =
     (\<exists>w anc. walked sf anc w \<and> kind w = ExportDeclaration \<and> exportClause w = None)"

text \<open>
  The file \<open>fl\<close> shows a wildcard re-export to the walk in every program the
  language service gives, whatever the state of the file store.
\<close>

definition alwaysWildcard :: "(FileService \<Rightarrow> LanguageService) \<Rightarrow> string \<Rightarrow> bool" where
  "alwaysWildcard ls fl =
     (\<forall>fs p sf. getProgram (ls fs) = Some p \<longrightarrow> getSourceFile p fl = Some sf
        \<longrightarrow> hasWildcard sf)"

lemma doWhile_wildcard_used:
  assumes "removeUnusedExport_doWhile ts ls atc fl content fs log = Some y"
    and w: "alwaysWildcard ls fl"
  shows "fst y = None \<longrightarrow> fst (snd y)"
  using assms(1)
proof (induction rule: doWhile_induct)
  case (error content fs log log1 e)
  show ?case by simp
next
  case (stop content fs log log1 result)
  from getTextChanges_Inr[OF stop(1)] obtain p sf nodes where
    a: "getProgram (ls fs) = Some p" "getSourceFile p fl = Some sf"
    and b: "getUnusedExports ts (ls fs) sf fs = Some (Inr (nodes, isUsed result))" by blast
  from w a have "hasWildcard sf" unfolding alwaysWildcard_def by blast
  with b wildcard_used have "isUsed result"
    unfolding hasWildcard_def by blast
  then show ?case by simp
next
  case (continue content fs log log1 result y)
  then show ?case by simp
qed

lemma codeFix_props:
  assumes "removeUnusedExport_codeFix acf fl content fs = Some y"
  shows "(\<forall>g. g \<noteq> fl \<longrightarrow> snd y g = fs g) \<and> snd y fl = Some (fst y)"
proof (rule removeUnusedExport_codeFix.raw_induct
    [where P = "\<lambda>acf fl content fs y.
                  (\<forall>g. g \<noteq> fl \<longrightarrow> snd y g = fs g) \<and> snd y fl = Some (fst y)", OF _ assms])
  fix cf acf fl content fs y
  assume IH: "\<And>acf fl content fs y. cf acf fl content fs = Some y
                \<Longrightarrow> (\<forall>g. g \<noteq> fl \<longrightarrow> snd y g = fs g) \<and> snd y fl = Some (fst y)"
    and step: "(if acf fixIdDelete fl (fs_set fs fl content) = content
                then Some (content, fs_set fs fl content)
                else cf acf fl (acf fixIdDelete fl (fs_set fs fl content))
                       (fs_set fs fl content)) = Some y"
  show "(\<forall>g. g \<noteq> fl \<longrightarrow> snd y g = fs g) \<and> snd y fl = Some (fst y)"
  proof (cases "acf fixIdDelete fl (fs_set fs fl content) = content")
    case True
    with step show ?thesis by (auto simp: fs_set_def)
  next
    case False
    with step have
      "cf acf fl (acf fixIdDelete fl (fs_set fs fl content)) (fs_set fs fl content) = Some y"
      by simp
    from IH[OF this] show ?thesis by (auto simp: fs_set_def)
  qed
qed

text \<open>
  The ways the body of the loop over the target files ends for one file: the file
  is not in the program; an exception was thrown; the file was deleted; the
  session was ended.
\<close>

lemma file_cases [consumes 1, case_names skip thrown deleted ended]:
  assumes run:
    "removeUnusedExport_file ts ls atc acf del cfx program fl (fs, log) = Some (err, fs', log')"
  obtains
    (skip) "getSourceFile program fl = None" "err = None" "fs' = fs" "log' = log"
  | (thrown) sf y removals e where
      "getSourceFile program fl = Some sf"
      "removeUnusedExport_doWhile ts ls atc fl (fs_get fs fl) fs
         (log @ [TrackStart fl (getFullText sf)]) = Some y"
      "list_all isRemoveExport removals"
      "fst y = Some e" "err = Some e"
      "log' = log @ [TrackStart fl (getFullText sf)] @ removals"
      "fs' = fst (snd (snd (snd y)))"
  | (deleted) sf y removals where
      "getSourceFile program fl = Some sf"
      "removeUnusedExport_doWhile ts ls atc fl (fs_get fs fl) fs
         (log @ [TrackStart fl (getFullText sf)]) = Some y"
      "list_all isRemoveExport removals"
      "fst y = None" "err = None" "\<not> fst (snd y)" "del"
      "\<forall>g. g \<noteq> fl \<longrightarrow> fs' g = fs g" "fs' fl = None"
      "log' = log @ [TrackStart fl (getFullText sf)] @ removals @ [TrackDelete fl]"
  | (ended) sf y removals where
      "getSourceFile program fl = Some sf"
      "removeUnusedExport_doWhile ts ls atc fl (fs_get fs fl) fs
         (log @ [TrackStart fl (getFullText sf)]) = Some y"
      "list_all isRemoveExport removals"
      "fst y = None" "err = None" "fst (snd y) \<or> \<not> del"
      "\<forall>g. g \<noteq> fl \<longrightarrow> fs' g = fs g" "fs' fl \<noteq> None"
      "log' = log @ [TrackStart fl (getFullText sf)] @ removals @ [TrackEnd fl]"
proof (cases "getSourceFile program fl")
  case None
  with run have "err = None" "fs' = fs" "log' = log"
    by (simp_all add: removeUnusedExport_file_def)
  with None show ?thesis by (rule skip)
next
  case (Some sf)
  let ?log0 = "log @ [TrackStart fl (getFullText sf)]"
  from run Some obtain y where
    y: "removeUnusedExport_doWhile ts ls atc fl (fs_get fs fl) fs ?log0 = Some y"
    by (cases "removeUnusedExport_doWhile ts ls atc fl (fs_get fs fl) fs ?log0")
       (auto simp: removeUnusedExport_file_def)
  obtain e used content fs1 log1 where yy: "y = (e, used, content, fs1, log1)"
    by (cases y) auto
  from doWhile_props[OF y] yy obtain removals where
    r: "log1 = ?log0 @ removals" "list_all isRemoveExport removals"
    and frame: "\<forall>g. g \<noteq> fl \<longrightarrow> fs1 g = fs g" by auto
  have body: "Some (err, fs', log') =
     (case y of
        (Some e, _, _, fileService, log) \<Rightarrow> Some (Some e, fileService, log)
      | (None, used, content, fileService, log) \<Rightarrow>
          if \<not> used \<and> del then
            Some (None, fs_delete fileService fl, log @ [TrackDelete fl])
          else if cfx then
            (case removeUnusedExport_codeFix acf fl content fileService of
               None \<Rightarrow> None
             | Some (content', fileService') \<Rightarrow>
                 Some (None,
                       fs_set (fs_set fileService' fl content') fl
                         (acf fixIdDeleteImports fl (fs_set fileService' fl content')),
                       log @ [TrackEnd fl]))
          else Some (None, fs_set fileService fl content, log @ [TrackEnd fl]))"
    using run Some y by (simp add: removeUnusedExport_file_def)
  show ?thesis
  proof (cases e)
    case (Some ex)
    with body yy have "err = Some ex" "fs' = fs1" "log' = log1" by simp_all
    with Some yy r have "fst y = Some ex" "err = Some ex"
      "log' = log @ [TrackStart fl (getFullText sf)] @ removals"
      "fs' = fst (snd (snd (snd y)))" by simp_all
    from thrown[OF \<open>getSourceFile program fl = Some sf\<close> y r(2) this] show ?thesis .
  next
    case None
    note en = None
    show ?thesis
    proof (cases "\<not> used \<and> del")
      case True
      with body yy en have "err = None" "fs' = fs_delete fs1 fl" "log' = log1 @ [TrackDelete fl]"
        by simp_all
      with yy en True r frame have "fst y = None" "err = None" "\<not> fst (snd y)" "del"
        "\<forall>g. g \<noteq> fl \<longrightarrow> fs' g = fs g" "fs' fl = None"
        "log' = log @ [TrackStart fl (getFullText sf)] @ removals @ [TrackDelete fl]"
        by (simp_all add: fs_delete_def)
      from deleted[OF \<open>getSourceFile program fl = Some sf\<close> y r(2) this] show ?thesis .
    next
      case False
      note nd = False
      have "err = None \<and> (\<forall>g. g \<noteq> fl \<longrightarrow> fs' g = fs g) \<and> fs' fl \<noteq> None
          \<and> log' = log1 @ [TrackEnd fl]"
      proof (cases cfx)
        case False
        with body yy en nd have "err = None" "fs' = fs_set fs1 fl content"
          "log' = log1 @ [TrackEnd fl]" by simp_all
        with frame show ?thesis by (simp add: fs_set_def)
      next
        case True
        with body yy en nd obtain c2 where
          c2: "removeUnusedExport_codeFix acf fl content fs1 = Some c2"
          by (cases "removeUnusedExport_codeFix acf fl content fs1") auto
        obtain content2 fs2 where cc: "c2 = (content2, fs2)" by (cases c2) auto
        from codeFix_props[OF c2] cc have f2: "\<forall>g. g \<noteq> fl \<longrightarrow> fs2 g = fs1 g" by simp
        from body yy en nd True c2 cc have
          "err = None" "log' = log1 @ [TrackEnd fl]"
          "fs' = fs_set (fs_set fs2 fl content2) fl
                   (acf fixIdDeleteImports fl (fs_set fs2 fl content2))"
          by simp_all
        with frame f2 show ?thesis by (simp add: fs_set_def)
      qed
      with yy en nd r have "fst y = None" "err = None" "fst (snd y) \<or> \<not> del"
        "\<forall>g. g \<noteq> fl \<longrightarrow> fs' g = fs g" "fs' fl \<noteq> None"
        "log' = log @ [TrackStart fl (getFullText sf)] @ removals @ [TrackEnd fl]"
        by simp_all
      from ended[OF \<open>getSourceFile program fl = Some sf\<close> y r(2) this] show ?thesis .
    qed
  qed
qed

lemma removals_no_delete:
  "list_all isRemoveExport evs \<Longrightarrow> TrackDelete g \<notin> set evs"
  by (induction evs) (auto simp: isRemoveExport_def)

lemma file_keeps:
  assumes w: "alwaysWildcard ls fl"
    and run: "removeUnusedExport_file ts ls atc acf del cfx program f (fs, log) = Some (err, fs', log')"
  shows "(fs fl \<noteq> None \<longrightarrow> fs' fl \<noteq> None)
       \<and> (\<exists>evs. log' = log @ evs \<and> TrackDelete fl \<notin> set evs)"
  using run
proof (cases rule: file_cases)
  case skip
  then show ?thesis by simp
next
  case (thrown sf y removals e)
  let ?evs = "TrackStart f (getFullText sf) # removals"
  from removals_no_delete[OF thrown(3), of fl] have n: "TrackDelete fl \<notin> set ?evs" by simp
  from doWhile_props[OF thrown(2)] thrown(7) have
    "(\<forall>g. g \<noteq> f \<longrightarrow> fs' g = fs g) \<and> (fs f \<noteq> None \<longrightarrow> fs' f \<noteq> None)" by simp
  then have "fs fl \<noteq> None \<longrightarrow> fs' fl \<noteq> None" by (cases "f = fl") auto
  moreover from thrown(6) have "log' = log @ ?evs" by simp
  ultimately show ?thesis using n by blast
next
  case (deleted sf y removals)
  let ?evs = "TrackStart f (getFullText sf) # removals @ [TrackDelete f]"
  have ne: "f \<noteq> fl"
  proof
    assume "f = fl"
    with doWhile_wildcard_used[OF deleted(2)] w deleted(4,6) show False by simp
  qed
  with removals_no_delete[OF deleted(3), of fl] have n: "TrackDelete fl \<notin> set ?evs" by simp
  from ne deleted(8) have "fs' fl = fs fl" by simp
  moreover from deleted(10) have "log' = log @ ?evs" by simp
  ultimately show ?thesis using n by auto
next
  case (ended sf y removals)
  let ?evs = "TrackStart f (getFullText sf) # removals @ [TrackEnd f]"
  from removals_no_delete[OF ended(3), of fl] have n: "TrackDelete fl \<notin> set ?evs" by simp
  from ended(7,8) have "fs fl \<noteq> None \<longrightarrow> fs' fl \<noteq> None" by (cases "f = fl") auto
  moreover from ended(9) have "log' = log @ ?evs" by simp
  ultimately show ?thesis using n by blast
qed

lemma each_keeps:
  assumes w: "alwaysWildcard ls fl"
  shows "removeUnusedExport_each ts ls atc acf del cfx program files (fs, log) = Some (err, fs', log')
     \<Longrightarrow> (fs fl \<noteq> None \<longrightarrow> fs' fl \<noteq> None)
       \<and> (\<exists>evs. log' = log @ evs \<and> TrackDelete fl \<notin> set evs)"
proof (induction files arbitrary: fs log)
  case Nil
  then show ?case by simp
next
  case (Cons f files)
  from Cons.prems obtain r where
    r: "removeUnusedExport_file ts ls atc acf del cfx program f (fs, log) = Some r"
    by (cases "removeUnusedExport_file ts ls atc acf del cfx program f (fs, log)") auto
  obtain e1 fs1 log1 where rr: "r = (e1, fs1, log1)" by (cases r) auto
  from file_keeps[OF w r[unfolded rr]] obtain evs1 where
    k1: "fs fl \<noteq> None \<longrightarrow> fs1 fl \<noteq> None" "log1 = log @ evs1" "TrackDelete fl \<notin> set evs1"
    by blast
  show ?case
  proof (cases e1)
    case (Some e)
    with Cons.prems r rr have "fs' = fs1" "log' = log1" by simp_all
    with k1 show ?thesis by blast
  next
    case None
    with Cons.prems r rr have
      "removeUnusedExport_each ts ls atc acf del cfx program files (fs1, log1) = Some (err, fs', log')"
      by simp
    from Cons.IH[OF this] obtain evs2 where
      "fs1 fl \<noteq> None \<longrightarrow> fs' fl \<noteq> None" "log' = log1 @ evs2" "TrackDelete fl \<notin> set evs2"
      by blast
    with k1 have "(fs fl \<noteq> None \<longrightarrow> fs' fl \<noteq> None)
       \<and> log' = log @ (evs1 @ evs2) \<and> TrackDelete fl \<notin> set (evs1 @ evs2)" by simp
    then show ?thesis by blast
  qed
qed

section \<open>The sessions of the tracker\<close>

text \<open>
  The events of a run that throws nothing, read against the list of the target
  files and the program fetched at the start: a file that is not in the program
  has no event; a file that is has a session, the start with the text of the file
  in that program, then removals and nothing else, then one closing event, the
  end of the session or, only where file deletion is requested, the deletion of
  the file. A file listed twice has two sessions.
\<close>

fun sessions :: "Program \<Rightarrow> bool \<Rightarrow> string list \<Rightarrow> EditEvent list \<Rightarrow> bool" where
  "sessions program deleteUnusedFile [] evs = (evs = [])"
| "sessions program deleteUnusedFile (fl # files) evs =
     (case getSourceFile program fl of
        None \<Rightarrow> sessions program deleteUnusedFile files evs
      | Some sourceFile \<Rightarrow>
          (case evs of
             [] \<Rightarrow> False
           | first # rest \<Rightarrow>
               first = TrackStart fl (getFullText sourceFile)
               \<and> (case dropWhile isRemoveExport rest of
                    [] \<Rightarrow> False
                  | final # evs' \<Rightarrow>
                      (final = TrackEnd fl \<or> (deleteUnusedFile \<and> final = TrackDelete fl))
                      \<and> sessions program deleteUnusedFile files evs')))"

lemma dropWhile_removals:
  "list_all isRemoveExport removals \<Longrightarrow> \<not> isRemoveExport final
   \<Longrightarrow> dropWhile isRemoveExport (removals @ final # evs) = final # evs"
  by (induction removals) auto

lemma sessions_step:
  assumes "getSourceFile program fl = Some sf"
    and "list_all isRemoveExport removals"
    and "final = TrackEnd fl \<or> (del \<and> final = TrackDelete fl)"
    and "sessions program del files evs"
  shows "sessions program del (fl # files)
           (TrackStart fl (getFullText sf) # removals @ final # evs)"
proof -
  from assms(3) have "\<not> isRemoveExport final" by (auto simp: isRemoveExport_def)
  from dropWhile_removals[OF assms(2) this]
  have "dropWhile isRemoveExport (removals @ final # evs) = final # evs" .
  with assms show ?thesis by simp
qed

lemma removals_no_end:
  "list_all isRemoveExport evs \<Longrightarrow> TrackEnd g \<notin> set evs"
  by (induction evs) (auto simp: isRemoveExport_def)

text \<open>What the body of the loop leaves for one file when it throws nothing.\<close>

lemma file_session:
  assumes "removeUnusedExport_file ts ls atc acf del cfx program fl (fs, log) = Some (None, fs', log')"
  obtains s where "log' = log @ s"
    and "\<And>files evs. sessions program del files evs \<Longrightarrow> sessions program del (fl # files) (s @ evs)"
    and "\<And>g. g \<noteq> fl \<or> getSourceFile program fl = None \<Longrightarrow> fs' g = fs g"
    and "\<And>g. TrackDelete g \<in> set s
                \<longleftrightarrow> g = fl \<and> getSourceFile program fl \<noteq> None \<and> fs' fl = None"
    and "\<And>g. TrackEnd g \<in> set s
                \<longleftrightarrow> g = fl \<and> getSourceFile program fl \<noteq> None \<and> fs' fl \<noteq> None"
  using assms
proof (cases rule: file_cases)
  case skip
  show ?thesis
  proof (rule that[of "[]"])
    from skip show "log' = log @ []" by simp
    show "sessions program del (fl # files) ([] @ evs)" if "sessions program del files evs"
      for files evs using that skip(1) by simp
    show "fs' g = fs g" for g using skip by simp
    show "TrackDelete g \<in> set []
            \<longleftrightarrow> g = fl \<and> getSourceFile program fl \<noteq> None \<and> fs' fl = None" for g
      using skip by simp
    show "TrackEnd g \<in> set []
            \<longleftrightarrow> g = fl \<and> getSourceFile program fl \<noteq> None \<and> fs' fl \<noteq> None" for g
      using skip by simp
  qed
next
  case (thrown sf y removals e)
  then show ?thesis by simp
next
  case (deleted sf y removals)
  let ?s = "TrackStart fl (getFullText sf) # removals @ [TrackDelete fl]"
  show ?thesis
  proof (rule that[of ?s])
    from deleted(10) show "log' = log @ ?s" by simp
    show "sessions program del (fl # files) (?s @ evs)" if "sessions program del files evs"
      for files evs
      using sessions_step[OF deleted(1,3), of "TrackDelete fl" del, OF _ that] deleted(7) by simp
    show "fs' g = fs g" if "g \<noteq> fl \<or> getSourceFile program fl = None" for g
      using that deleted(1,8) by simp
    show "TrackDelete g \<in> set ?s
            \<longleftrightarrow> g = fl \<and> getSourceFile program fl \<noteq> None \<and> fs' fl = None" for g
      using removals_no_delete[OF deleted(3), of g] deleted(1,9) by auto
    show "TrackEnd g \<in> set ?s
            \<longleftrightarrow> g = fl \<and> getSourceFile program fl \<noteq> None \<and> fs' fl \<noteq> None" for g
      using removals_no_end[OF deleted(3), of g] deleted(1,9) by auto
  qed
next
  case (ended sf y removals)
  let ?s = "TrackStart fl (getFullText sf) # removals @ [TrackEnd fl]"
  show ?thesis
  proof (rule that[of ?s])
    from ended(9) show "log' = log @ ?s" by simp
    show "sessions program del (fl # files) (?s @ evs)" if "sessions program del files evs"
      for files evs
      using sessions_step[OF ended(1,3), of "TrackEnd fl" del, OF _ that] by simp
    show "fs' g = fs g" if "g \<noteq> fl \<or> getSourceFile program fl = None" for g
      using that ended(1,7) by simp
    show "TrackDelete g \<in> set ?s
            \<longleftrightarrow> g = fl \<and> getSourceFile program fl \<noteq> None \<and> fs' fl = None" for g
      using removals_no_delete[OF ended(3), of g] ended(1,8) by auto
    show "TrackEnd g \<in> set ?s
            \<longleftrightarrow> g = fl \<and> getSourceFile program fl \<noteq> None \<and> fs' fl \<noteq> None" for g
      using removals_no_end[OF ended(3), of g] ended(1,8) by auto
  qed
qed

declare sessions.simps(2) [simp del]

lemma file_thrown:
  assumes "removeUnusedExport_file ts ls atc acf del cfx program fl (fs, log)
             = Some (Some e, fs', log')"
  shows "\<exists>sf removals. getSourceFile program fl = Some sf
           \<and> list_all isRemoveExport removals
           \<and> log' = log @ TrackStart fl (getFullText sf) # removals"
  using assms
proof (cases rule: file_cases)
  case (thrown sf y removals e)
  then show ?thesis by auto
qed simp_all

lemma each_Cons_cases [consumes 1, case_names stop continue]:
  assumes "removeUnusedExport_each ts ls atc acf del cfx program (fl # files) (fs, log)
             = Some (err, fs', log')"
  obtains
    (stop) e where
      "removeUnusedExport_file ts ls atc acf del cfx program fl (fs, log) = Some (Some e, fs', log')"
      "err = Some e"
  | (continue) fs1 log1 where
      "removeUnusedExport_file ts ls atc acf del cfx program fl (fs, log) = Some (None, fs1, log1)"
      "removeUnusedExport_each ts ls atc acf del cfx program files (fs1, log1)
         = Some (err, fs', log')"
proof -
  from assms obtain r where
    r: "removeUnusedExport_file ts ls atc acf del cfx program fl (fs, log) = Some r"
    by (cases "removeUnusedExport_file ts ls atc acf del cfx program fl (fs, log)") auto
  obtain e1 fs1 log1 where rr: "r = (e1, fs1, log1)" by (cases r) auto
  show ?thesis
  proof (cases e1)
    case None
    with assms r rr have
      "removeUnusedExport_each ts ls atc acf del cfx program files (fs1, log1)
         = Some (err, fs', log')" by simp
    with r rr None continue show ?thesis by simp
  next
    case (Some e)
    with assms r rr have "err = Some e" "fs' = fs1" "log' = log1" by simp_all
    with r rr Some stop show ?thesis by simp
  qed
qed

lemma each_complete:
  "removeUnusedExport_each ts ls atc acf del cfx program files (fs, log) = Some (None, fs', log')
   \<Longrightarrow> \<exists>evs. log' = log @ evs \<and> sessions program del files evs"
proof (induction files arbitrary: fs log)
  case Nil
  then show ?case by simp
next
  case (Cons fl files)
  from Cons.prems show ?case
  proof (cases rule: each_Cons_cases)
    case (stop e)
    then show ?thesis by simp
  next
    case (continue fs1 log1)
    from continue(1) show ?thesis
    proof (rule file_session)
      fix s
      assume
        s: "log1 = log @ s"
        "\<And>files evs. sessions program del files evs
           \<Longrightarrow> sessions program del (fl # files) (s @ evs)"
        "\<And>g. g \<noteq> fl \<or> getSourceFile program fl = None \<Longrightarrow> fs1 g = fs g"
        "\<And>g. TrackDelete g \<in> set s
                  \<longleftrightarrow> g = fl \<and> getSourceFile program fl \<noteq> None \<and> fs1 fl = None"
        "\<And>g. TrackEnd g \<in> set s
                  \<longleftrightarrow> g = fl \<and> getSourceFile program fl \<noteq> None \<and> fs1 fl \<noteq> None"
      from Cons.IH[OF continue(2)] obtain evs where
        e: "log' = log1 @ evs" "sessions program del files evs" by blast
      from s(2)[OF e(2)] have "sessions program del (fl # files) (s @ evs)" .
      moreover from s(1) e(1) have "log' = log @ (s @ evs)" by simp
      ultimately show ?thesis by (intro exI conjI)
    qed
  qed
qed

lemma each_thrown:
  "removeUnusedExport_each ts ls atc acf del cfx program files (fs, log) = Some (Some e, fs', log')
   \<Longrightarrow> \<exists>pre fl sf post evs removals.
         files = pre @ fl # post \<and> getSourceFile program fl = Some sf
       \<and> sessions program del pre evs \<and> list_all isRemoveExport removals
       \<and> log' = log @ evs @ TrackStart fl (getFullText sf) # removals"
proof (induction files arbitrary: fs log)
  case Nil
  then show ?case by simp
next
  case (Cons f files)
  from Cons.prems show ?case
  proof (cases rule: each_Cons_cases)
    case (stop e1)
    from file_thrown[OF stop(1)] obtain sf removals where
      "getSourceFile program f = Some sf" "list_all isRemoveExport removals"
      "log' = log @ TrackStart f (getFullText sf) # removals" by blast
    then have "f # files = [] @ f # files \<and> getSourceFile program f = Some sf
       \<and> sessions program del [] [] \<and> list_all isRemoveExport removals
       \<and> log' = log @ [] @ TrackStart f (getFullText sf) # removals" by simp
    then show ?thesis by (intro exI)
  next
    case (continue fs1 log1)
    from continue(1) show ?thesis
    proof (rule file_session)
      fix s
      assume
        s: "log1 = log @ s"
        "\<And>files evs. sessions program del files evs
           \<Longrightarrow> sessions program del (f # files) (s @ evs)"
        "\<And>g. g \<noteq> f \<or> getSourceFile program f = None \<Longrightarrow> fs1 g = fs g"
        "\<And>g. TrackDelete g \<in> set s
                  \<longleftrightarrow> g = f \<and> getSourceFile program f \<noteq> None \<and> fs1 f = None"
        "\<And>g. TrackEnd g \<in> set s
                  \<longleftrightarrow> g = f \<and> getSourceFile program f \<noteq> None \<and> fs1 f \<noteq> None"
      from Cons.IH[OF continue(2)] obtain pre fl sf post evs removals where
        i: "files = pre @ fl # post" "getSourceFile program fl = Some sf"
        "sessions program del pre evs" "list_all isRemoveExport removals"
        "log' = log1 @ evs @ TrackStart fl (getFullText sf) # removals" by blast
      from s(2)[OF i(3)] have "sessions program del (f # pre) (s @ evs)" .
      with s(1) i have "f # files = (f # pre) @ fl # post \<and> getSourceFile program fl = Some sf
         \<and> sessions program del (f # pre) (s @ evs) \<and> list_all isRemoveExport removals
         \<and> log' = log @ (s @ evs) @ TrackStart fl (getFullText sf) # removals" by simp
      then show ?thesis by (intro exI)
    qed
  qed
qed

lemma each_store:
  "removeUnusedExport_each ts ls atc acf del cfx program files (fs, log) = Some (None, fs', log')
   \<Longrightarrow> distinct files
   \<Longrightarrow> \<exists>evs. log' = log @ evs
         \<and> (\<forall>g. if g \<in> set files \<and> getSourceFile program g \<noteq> None
                 then (TrackDelete g \<in> set evs \<longleftrightarrow> fs' g = None)
                    \<and> (TrackEnd g \<in> set evs \<longleftrightarrow> fs' g \<noteq> None)
                 else fs' g = fs g \<and> TrackDelete g \<notin> set evs \<and> TrackEnd g \<notin> set evs)"
proof (induction files arbitrary: fs log)
  case Nil
  then show ?case by simp
next
  case (Cons fl files)
  from Cons.prems(2) have d: "fl \<notin> set files" "distinct files" by simp_all
  from Cons.prems(1) show ?case
  proof (cases rule: each_Cons_cases)
    case (stop e)
    then show ?thesis by simp
  next
    case (continue fs1 log1)
    from continue(1) show ?thesis
    proof (rule file_session)
      fix s
      assume
        s: "log1 = log @ s"
        and sess: "\<And>files evs. sessions program del files evs
           \<Longrightarrow> sessions program del (fl # files) (s @ evs)"
        and frame: "\<And>g. g \<noteq> fl \<or> getSourceFile program fl = None \<Longrightarrow> fs1 g = fs g"
        and del: "\<And>g. TrackDelete g \<in> set s
                  \<longleftrightarrow> g = fl \<and> getSourceFile program fl \<noteq> None \<and> fs1 fl = None"
        and en: "\<And>g. TrackEnd g \<in> set s
                  \<longleftrightarrow> g = fl \<and> getSourceFile program fl \<noteq> None \<and> fs1 fl \<noteq> None"
      from Cons.IH[OF continue(2) d(2)] obtain evs where
        e: "log' = log1 @ evs"
        and ih: "\<forall>g. if g \<in> set files \<and> getSourceFile program g \<noteq> None
                   then (TrackDelete g \<in> set evs \<longleftrightarrow> fs' g = None)
                      \<and> (TrackEnd g \<in> set evs \<longleftrightarrow> fs' g \<noteq> None)
                   else fs' g = fs1 g \<and> TrackDelete g \<notin> set evs \<and> TrackEnd g \<notin> set evs"
        by blast
      have g: "if g \<in> set (fl # files) \<and> getSourceFile program g \<noteq> None
                   then (TrackDelete g \<in> set (s @ evs) \<longleftrightarrow> fs' g = None)
                      \<and> (TrackEnd g \<in> set (s @ evs) \<longleftrightarrow> fs' g \<noteq> None)
                   else fs' g = fs g \<and> TrackDelete g \<notin> set (s @ evs)
                      \<and> TrackEnd g \<notin> set (s @ evs)" for g
      proof (cases "g = fl")
        case True
        from d(1) ih[rule_format, of fl] have
          "fs' fl = fs1 fl" "TrackDelete fl \<notin> set evs" "TrackEnd fl \<notin> set evs"
          by simp_all
        with True del[of fl] en[of fl] frame[of fl] show ?thesis by auto
      next
        case False
        with del[of g] en[of g] frame[of g] have
          "TrackDelete g \<notin> set s" "TrackEnd g \<notin> set s" "fs1 g = fs g"
          by simp_all
        with False ih[rule_format, of g] show ?thesis by simp
      qed
      from s e have l: "log' = log @ (s @ evs)" by simp
      show ?thesis
        by (rule exI[of _ "s @ evs"], rule conjI, rule l, rule allI, rule g)
    qed
  qed
qed


section \<open>Properties of a batch of edits\<close>

text \<open>
  The edit of an export specifier that has siblings regenerates the text of the
  whole export declaration; it is the edit that sets \<open>aborted\<close>.
\<close>

definition isMultiSpecifier :: "NodeRef \<Rightarrow> bool" where
  "isMultiSpecifier nr =
     (kind (fst nr) = ExportSpecifier
      \<and> (case parent (snd nr) of Inl e \<Rightarrow> False | Inr p \<Rightarrow> length (elements p) \<noteq> 1))"

text \<open>The nodes a batch gets to: those before the first such specifier, and that one.\<close>

definition batch :: "NodeRef list \<Rightarrow> NodeRef list" where
  "batch nodes =
     takeWhile (\<lambda>n. \<not> isMultiSpecifier n) nodes
     @ take 1 (dropWhile (\<lambda>n. \<not> isMultiSpecifier n) nodes)"

lemma batch_Nil [simp]: "batch [] = []"
  by (simp add: batch_def)

lemma batch_Cons:
  "batch (n # nodes) = (if isMultiSpecifier n then [n] else n # batch nodes)"
  by (simp add: batch_def)

lemma batch_one_multi: "length (filter isMultiSpecifier (batch nodes)) \<le> 1"
  by (induction nodes) (auto simp: batch_Cons)

lemma getTextChanges_node_abort:
  "getTextChanges_node ts sf nr = Inr (c, ev, ab) \<Longrightarrow> ab = isMultiSpecifier nr"
  unfolding getTextChanges_node_def isMultiSpecifier_def Let_def
  by (auto split: if_splits sum.splits option.splits)

lemma getTextChanges_loop_batch:
  "getTextChanges_loop ts sf nodes (cs0, False, log0) = (None, cs, ab, log) \<Longrightarrow>
   \<exists>new. cs = cs0 @ new
      \<and> list_all2 (\<lambda>nr c. \<exists>ev a. getTextChanges_node ts sf nr = Inr (c, ev, a)) (batch nodes) new
      \<and> ab = list_ex isMultiSpecifier nodes"
proof (induction nodes arbitrary: cs0 log0)
  case Nil
  then show ?case by simp
next
  case (Cons n nodes)
  from Cons.prems obtain c ev a where
    r: "getTextChanges_node ts sf n = Inr (c, ev, a)"
    by (cases "getTextChanges_node ts sf n") auto
  from getTextChanges_node_abort[OF r] have a: "a = isMultiSpecifier n" .
  from Cons.prems r have step:
    "getTextChanges_loop ts sf nodes (cs0 @ [c], a, log0 @ [ev]) = (None, cs, ab, log)"
    by simp
  show ?case
  proof (cases "isMultiSpecifier n")
    case True
    with a step have "cs = cs0 @ [c]" "ab = True"
      by (cases nodes; simp)+
    with True r show ?thesis by (auto simp: batch_Cons)
  next
    case False
    with a step have
      "getTextChanges_loop ts sf nodes (cs0 @ [c], False, log0 @ [ev]) = (None, cs, ab, log)"
      by simp
    from Cons.IH[OF this] obtain new where
      n: "cs = (cs0 @ [c]) @ new"
      "list_all2 (\<lambda>nr c. \<exists>ev a. getTextChanges_node ts sf nr = Inr (c, ev, a)) (batch nodes) new"
      "ab = list_ex isMultiSpecifier nodes" by blast
    from n(2) r have
      "list_all2 (\<lambda>nr c. \<exists>ev a. getTextChanges_node ts sf nr = Inr (c, ev, a))
         (n # batch nodes) (c # new)" by auto
    with n(1,3) False have "cs = cs0 @ (c # new)
      \<and> list_all2 (\<lambda>nr c. \<exists>ev a. getTextChanges_node ts sf nr = Inr (c, ev, a))
           (batch (n # nodes)) (c # new)
      \<and> ab = list_ex isMultiSpecifier (n # nodes)"
      by (simp add: batch_Cons)
    then show ?thesis by blast
  qed
qed

lemma getAncestorFiles_first_hop_fails:
  assumes "parentParent anc = Inr g"
    and "moduleSpecifier g = Some ms"
    and "isStringLiteral ms"
    and "literalText ms \<noteq> []"
    and "resolveModuleName p (literalText ms) fl fs = None
         \<or> resolveModuleName p (literalText ms) fl fs = Some []
         \<or> (\<exists>origin. resolveModuleName p (literalText ms) fl fs = Some origin
               \<and> (referencesKeyValue refs origin = None \<or> getSourceFile p origin = None))"
  shows "getAncestorFiles (node, anc) refs fs p fl = Some (Inr None)"
  using assms
  by (subst getAncestorFiles_def, subst getAncestorFiles_while.simps)
     (auto simp: getFileFromModuleSpecifierText_def split: option.splits)

lemma visit_reexport:
  assumes "isTarget node"
    and "\<not> str_includes (getLeadingComment ts sf node) IGNORE_COMMENT"
    and "findReferences sf node ls = Inr (Some refs)"
    and "isReexport node anc = Inr True"
    and "getAncestorFiles (node, anc) refs fs p (fileName sf) = Some (Inr a)"
  shows "visit ts ls fs p sf anc node st =
     Some (Inr (case a of
                  None \<Rightarrow> (fst st, True)
                | Some ancestors \<Rightarrow>
                    if keptReferences (\<lambda>v. definition_fileName v \<noteq> fileName sf
                                         \<and> definition_fileName v \<notin> ancestors) refs = []
                    then (fst st @ [(node, anc)], snd st) else (fst st, True)))"
proof -
  from assms(4) have k: "kind node = ExportSpecifier"
    by (auto simp: isReexport_def split: if_splits)
  show ?thesis
    by (subst visit.simps) (simp add: k assms split: option.splits)
qed

lemma declaration_change:
  assumes "kind (fst nr) \<noteq> ExportSpecifier" "kind (fst nr) \<noteq> ExportAssignment"
    and "find (\<lambda>n. kind n = Identifier) (getChildren (fst nr)) \<noteq> None"
    and "getTextChanges_node ts sf nr = Inr (c, ev, ab)"
  shows "\<exists>i. findIndex (\<lambda>n. kind n = SyntaxList) (getChildren (fst nr)) = Some i
           \<and> Suc i < length (getChildren (fst nr))
           \<and> c = \<lparr>newText = [],
                   span = \<lparr>span_start = getStart (getChildren (fst nr) ! i),
                           span_length = getStart (getChildren (fst nr) ! Suc i)
                                         - getStart (getChildren (fst nr) ! i)\<rparr>\<rparr>"
  using assms unfolding getTextChanges_node_def Let_def
  by (auto split: if_splits option.splits)

section \<open>A project of two files\<close>

definition tok :: "SyntaxKind \<Rightarrow> nat \<Rightarrow> nat \<Rightarrow> nat \<Rightarrow> Node" where
  "tok k fs s e = Node k fs s e [] [] None None [] []"

definition nd :: "SyntaxKind \<Rightarrow> nat \<Rightarrow> nat \<Rightarrow> nat \<Rightarrow> Node list \<Rightarrow> Node list \<Rightarrow> Node" where
  "nd k fs s e cs gs = Node k fs s e cs gs None None [] []"

definition util_text :: string where
  "util_text = ''export function helper() {}'' @ [CHR 0x0A]
               @ ''export function shared() { helper(); }''"

definition helper_decl :: Node where
  "helper_decl =
     nd FunctionDeclaration 0 0 27
       [tok ExportKeyword 0 0 6, tok Identifier 15 16 22, tok (OtherKind ''Block'') 24 25 27]
       [nd SyntaxList 0 0 6 [tok ExportKeyword 0 0 6] [tok ExportKeyword 0 0 6],
        tok (OtherKind ''FunctionKeyword'') 6 7 15,
        tok Identifier 15 16 22,
        tok (OtherKind ''OpenParenToken'') 22 22 23,
        tok SyntaxList 23 23 23,
        tok (OtherKind ''CloseParenToken'') 23 23 24,
        tok (OtherKind ''Block'') 24 25 27]"

definition shared_body :: Node where
  "shared_body =
     nd (OtherKind ''Block'') 52 53 66
       [nd (OtherKind ''ExpressionStatement'') 54 55 64
          [nd (OtherKind ''CallExpression'') 54 55 63 [tok Identifier 54 55 61] []] []] []"

definition shared_decl :: Node where
  "shared_decl =
     nd FunctionDeclaration 27 28 66
       [tok ExportKeyword 27 28 34, tok Identifier 43 44 50, shared_body]
       [nd SyntaxList 27 28 34 [tok ExportKeyword 27 28 34] [tok ExportKeyword 27 28 34],
        tok (OtherKind ''FunctionKeyword'') 34 35 43,
        tok Identifier 43 44 50,
        tok (OtherKind ''OpenParenToken'') 50 50 51,
        tok SyntaxList 51 51 51,
        tok (OtherKind ''CloseParenToken'') 51 51 52,
        shared_body]"

definition util_root :: Node where
  "util_root = nd SourceFileKind 0 0 66 [helper_decl, shared_decl] []"

definition util_ts :: SourceFile where
  "util_ts = \<lparr>fileName = ''util.ts'', getFullText = util_text, root = util_root\<rparr>"

definition helper_refs :: "ReferencedSymbol list" where
  "helper_refs =
     [\<lparr>definition_fileName = ''util.ts'',
       references =
         [\<lparr>ref_fileName = ''util.ts'', textSpan = \<lparr>span_start = 16, span_length = 6\<rparr>\<rparr>,
          \<lparr>ref_fileName = ''util.ts'', textSpan = \<lparr>span_start = 55, span_length = 6\<rparr>\<rparr>]\<rparr>]"

definition shared_refs :: "ReferencedSymbol list" where
  "shared_refs =
     [\<lparr>definition_fileName = ''util.ts'',
       references =
         [\<lparr>ref_fileName = ''util.ts'', textSpan = \<lparr>span_start = 44, span_length = 6\<rparr>\<rparr>]\<rparr>,
      \<lparr>definition_fileName = ''main.ts'',
       references =
         [\<lparr>ref_fileName = ''main.ts'', textSpan = \<lparr>span_start = 9, span_length = 6\<rparr>\<rparr>,
          \<lparr>ref_fileName = ''main.ts'', textSpan = \<lparr>span_start = 33, span_length = 6\<rparr>\<rparr>]\<rparr>]"

definition util_program :: Program where
  "util_program =
     \<lparr>getSourceFile = (\<lambda>f. if f = ''util.ts'' then Some util_ts else None),
      resolveModuleName = (\<lambda>specifier fl fileService. None)\<rparr>"

definition util_service :: LanguageService where
  "util_service =
     \<lparr>getProgram = Some util_program,
      service_findReferences =
        (\<lambda>f pos. if f = ''util.ts'' \<and> pos = 0 then Some helper_refs
                 else if f = ''util.ts'' \<and> pos = 28 then Some shared_refs
                 else None)\<rparr>"

text \<open>A scanner that finds no comment, a parser and a printer that are not called.\<close>

definition plain_ts :: TS where
  "plain_ts =
     \<lparr>getLeadingCommentRanges = (\<lambda>text pos. None),
      createSourceFile = (\<lambda>text. \<lparr>fileName = ''tmp.ts'', getFullText = text,
                                   root = tok SourceFileKind 0 0 0\<rparr>),
      printFile = (\<lambda>file. [])\<rparr>"

lemmas util_defs = util_ts_def util_root_def helper_decl_def shared_decl_def shared_body_def
  tok_def nd_def util_service_def util_program_def plain_ts_def helper_refs_def
  shared_refs_def util_text_def

lemmas eval_defs = getUnusedExports_def visit.simps isTarget_def isDeclarationKind_def
      findFirstNodeOfKind_def getLeadingComment_def IGNORE_COMMENT_def findReferences_def
      isReexport_def keptReferences_def flatReferences_def slice_def

lemma util_unused:
  "getUnusedExports plain_ts util_service util_ts fs
     = Some (Inr ([(helper_decl, [util_root])], True))"
  by (simp add: eval_defs util_defs)

section \<open>A file with a skip comment\<close>

definition skip_text :: string where
  "skip_text = ''// ts-remove-unused-skip'' @ [CHR 0x0A] @ ''export const a = 1;''"

definition skip_list :: Node where
  "skip_list =
     nd VariableDeclarationList 31 32 43
       [nd VariableDeclaration 37 38 43
          [tok Identifier 37 38 39, tok (OtherKind ''NumericLiteral'') 41 42 43] []] []"

definition skip_stmt :: Node where
  "skip_stmt =
     nd VariableStatement 0 25 44
       [tok ExportKeyword 0 25 31, skip_list]
       [nd SyntaxList 0 25 31 [tok ExportKeyword 0 25 31] [tok ExportKeyword 0 25 31],
        skip_list,
        tok (OtherKind ''SemicolonToken'') 43 43 44]"

definition skip_root :: Node where
  "skip_root = nd SourceFileKind 0 25 44 [skip_stmt] []"

definition skip_ts :: SourceFile where
  "skip_ts = \<lparr>fileName = ''skip.ts'', getFullText = skip_text, root = skip_root\<rparr>"

definition skip_refs :: "ReferencedSymbol list" where
  "skip_refs =
     [\<lparr>definition_fileName = ''skip.ts'',
       references =
         [\<lparr>ref_fileName = ''skip.ts'', textSpan = \<lparr>span_start = 38, span_length = 1\<rparr>\<rparr>]\<rparr>]"

definition skip_program :: Program where
  "skip_program =
     \<lparr>getSourceFile = (\<lambda>f. if f = ''skip.ts'' then Some skip_ts else None),
      resolveModuleName = (\<lambda>specifier fl fileService. None)\<rparr>"

definition skip_service :: LanguageService where
  "skip_service =
     \<lparr>getProgram = Some skip_program,
      service_findReferences =
        (\<lambda>f pos. if f = ''skip.ts'' \<and> pos = 38 then Some skip_refs else None)\<rparr>"

text \<open>A scanner that finds the comment at the start of the text.\<close>

definition comment_ts :: TS where
  "comment_ts =
     \<lparr>getLeadingCommentRanges =
        (\<lambda>text pos. if pos = 0 then Some [\<lparr>range_pos = 0, range_end = 24\<rparr>] else None),
      createSourceFile = (\<lambda>text. \<lparr>fileName = ''tmp.ts'', getFullText = text,
                                   root = tok SourceFileKind 0 0 0\<rparr>),
      printFile = (\<lambda>file. [])\<rparr>"

lemmas skip_defs = skip_text_def skip_list_def skip_stmt_def skip_root_def skip_ts_def
  skip_refs_def skip_service_def skip_program_def comment_ts_def tok_def nd_def

section \<open>A statement that declares two variables\<close>

definition vars_text :: string where
  "vars_text = ''export const a = 1, b = 2;''"

definition vars_a :: Node where
  "vars_a =
     nd VariableDeclaration 12 13 18
       [tok Identifier 12 13 14, tok (OtherKind ''NumericLiteral'') 16 17 18] []"

definition vars_b :: Node where
  "vars_b =
     nd VariableDeclaration 19 20 25
       [tok Identifier 19 20 21, tok (OtherKind ''NumericLiteral'') 23 24 25] []"

definition vars_list :: Node where
  "vars_list = nd VariableDeclarationList 6 7 25 [vars_a, vars_b] []"

definition vars_stmt :: Node where
  "vars_stmt =
     nd VariableStatement 0 0 26
       [tok ExportKeyword 0 0 6, vars_list]
       [nd SyntaxList 0 0 6 [tok ExportKeyword 0 0 6] [tok ExportKeyword 0 0 6],
        vars_list,
        tok (OtherKind ''SemicolonToken'') 25 25 26]"

definition vars_root :: Node where
  "vars_root = nd SourceFileKind 0 0 26 [vars_stmt] []"

definition vars_ts :: SourceFile where
  "vars_ts = \<lparr>fileName = ''vars.ts'', getFullText = vars_text, root = vars_root\<rparr>"

definition vars_a_refs :: "ReferencedSymbol list" where
  "vars_a_refs =
     [\<lparr>definition_fileName = ''vars.ts'',
       references =
         [\<lparr>ref_fileName = ''vars.ts'', textSpan = \<lparr>span_start = 13, span_length = 1\<rparr>\<rparr>]\<rparr>]"

definition vars_b_refs :: "ReferencedSymbol list" where
  "vars_b_refs =
     [\<lparr>definition_fileName = ''vars.ts'',
       references =
         [\<lparr>ref_fileName = ''vars.ts'', textSpan = \<lparr>span_start = 20, span_length = 1\<rparr>\<rparr>]\<rparr>,
      \<lparr>definition_fileName = ''main.ts'',
       references =
         [\<lparr>ref_fileName = ''main.ts'', textSpan = \<lparr>span_start = 9, span_length = 1\<rparr>\<rparr>,
          \<lparr>ref_fileName = ''main.ts'', textSpan = \<lparr>span_start = 30, span_length = 1\<rparr>\<rparr>]\<rparr>]"

definition vars_program :: Program where
  "vars_program =
     \<lparr>getSourceFile = (\<lambda>f. if f = ''vars.ts'' then Some vars_ts else None),
      resolveModuleName = (\<lambda>specifier fl fileService. None)\<rparr>"

definition vars_service :: LanguageService where
  "vars_service =
     \<lparr>getProgram = Some vars_program,
      service_findReferences =
        (\<lambda>f pos. if f = ''vars.ts'' \<and> pos = 13 then Some vars_a_refs
                 else if f = ''vars.ts'' \<and> pos = 20 then Some vars_b_refs
                 else None)\<rparr>"

lemmas vars_defs = vars_text_def vars_a_def vars_b_def vars_list_def vars_stmt_def
  vars_root_def vars_ts_def vars_a_refs_def vars_b_refs_def vars_service_def vars_program_def plain_ts_def
  tok_def nd_def

lemmas edit_defs = getTextChanges_def getTextChanges_node_def getText_def
  getWidth_def getFullWidth_def parent_def parentParent_def applyTextChanges_def
  applyTextChange_def

lemma skip_run:
  "getUnusedExports comment_ts skip_service skip_ts fs = Some (Inr ([], True))"
  by (simp add: eval_defs skip_defs)

lemma vars_run:
  "getUnusedExports plain_ts vars_service vars_ts fs
     = Some (Inr ([(vars_stmt, [vars_root])], False))"
  by (simp add: eval_defs vars_defs)

lemma vars_changes:
  "getTextChanges plain_ts vars_service ''vars.ts'' log fs
     = Some (log @ [TrackRemoveExport ''vars.ts'' 0 ''a''],
             Inr \<lparr>changes = [\<lparr>newText = [], span = \<lparr>span_start = 0, span_length = 7\<rparr>\<rparr>],
                  is_done = True, isUsed = False\<rparr>)"
proof -
  have sf: "(case getProgram vars_service of None \<Rightarrow> None
             | Some program \<Rightarrow> getSourceFile program ''vars.ts'') = Some vars_ts"
    by (simp add: vars_service_def vars_program_def)
  show ?thesis
    by (simp add: getTextChanges_def sf vars_run)
       (simp add: vars_defs edit_defs findFirstNodeOfKind_def slice_def)
qed

lemma vars_applied:
  "applyTextChanges vars_text [\<lparr>newText = [], span = \<lparr>span_start = 0, span_length = 7\<rparr>\<rparr>]
     = ''const a = 1, b = 2;''"
  by (simp add: edit_defs vars_defs)

section \<open>A re-export from the empty module specifier\<close>

definition reexp_text :: string where
  "reexp_text = ''export { x } from '' @ [CHR 0x27, CHR 0x27] @ '';''"

definition reexp_spec :: Node where
  "reexp_spec = nd ExportSpecifier 8 9 10 [tok Identifier 8 9 10] [tok Identifier 8 9 10]"

definition reexp_named :: Node where
  "reexp_named =
     Node NamedExports 6 7 12 [reexp_spec]
       [tok (OtherKind ''OpenBraceToken'') 6 7 8,
        nd SyntaxList 8 9 10 [reexp_spec] [reexp_spec],
        tok (OtherKind ''CloseBraceToken'') 10 11 12]
       None None [reexp_spec] []"

definition reexp_from :: Node where
  "reexp_from = Node StringLiteral 17 18 20 [] [] None None [] []"

definition reexp_decl :: Node where
  "reexp_decl =
     Node ExportDeclaration 0 0 21 [reexp_named, reexp_from]
       [tok ExportKeyword 0 0 6, reexp_named, tok (OtherKind ''FromKeyword'') 12 13 17,
        reexp_from, tok (OtherKind ''SemicolonToken'') 20 20 21]
       (Some reexp_named) (Some reexp_from) [] []"

definition reexp_root :: Node where
  "reexp_root = nd SourceFileKind 0 0 21 [reexp_decl] []"

definition reexp_ts :: SourceFile where
  "reexp_ts = \<lparr>fileName = ''reexp.ts'', getFullText = reexp_text, root = reexp_root\<rparr>"

definition reexp_refs :: "ReferencedSymbol list" where
  "reexp_refs =
     [\<lparr>definition_fileName = ''reexp.ts'',
       references =
         [\<lparr>ref_fileName = ''reexp.ts'', textSpan = \<lparr>span_start = 9, span_length = 1\<rparr>\<rparr>]\<rparr>]"

text \<open>No module specifier resolves in this program.\<close>

definition reexp_program :: Program where
  "reexp_program =
     \<lparr>getSourceFile = (\<lambda>f. if f = ''reexp.ts'' then Some reexp_ts else None),
      resolveModuleName = (\<lambda>specifier fl fileService. None)\<rparr>"

definition reexp_service :: LanguageService where
  "reexp_service =
     \<lparr>getProgram = Some reexp_program,
      service_findReferences =
        (\<lambda>f pos. if f = ''reexp.ts'' \<and> pos = 9 then Some reexp_refs else None)\<rparr>"

lemmas reexp_defs = reexp_text_def reexp_spec_def reexp_named_def reexp_from_def
  reexp_decl_def reexp_root_def reexp_ts_def reexp_refs_def reexp_program_def
  reexp_service_def plain_ts_def tok_def nd_def

lemmas ancestor_defs = getAncestorFiles_def parentParent_def isStringLiteral_def
  getAncestorFiles_while.simps getFileFromModuleSpecifierText_def referencesKeyValue_def
  getReexportInFile_def findReexportNode_def

lemma reexp_ancestors:
  "getAncestorFiles (reexp_spec, [reexp_named, reexp_decl, reexp_root]) reexp_refs Map.empty
     reexp_program ''reexp.ts'' = Some (Inr (Some {}))"
  by (simp add: ancestor_defs reexp_decl_def reexp_from_def)

lemma reexp_run:
  "getUnusedExports plain_ts reexp_service reexp_ts Map.empty
     = Some (Inr ([(reexp_spec, [reexp_named, reexp_decl, reexp_root])], False))"
  by (simp add: eval_defs ancestor_defs reexp_defs)

lemma reexp_changes:
  "getTextChanges plain_ts reexp_service ''reexp.ts'' [] Map.empty
     = Some ([TrackRemoveExport ''reexp.ts'' 0 reexp_text],
             Inr \<lparr>changes = [\<lparr>newText = [], span = \<lparr>span_start = 0, span_length = 21\<rparr>\<rparr>],
                  is_done = True, isUsed = False\<rparr>)"
proof -
  have sf: "(case getProgram reexp_service of None \<Rightarrow> None
             | Some program \<Rightarrow> getSourceFile program ''reexp.ts'') = Some reexp_ts"
    by (simp add: reexp_service_def reexp_program_def)
  show ?thesis
    by (simp add: getTextChanges_def sf reexp_run)
       (simp add: reexp_defs edit_defs slice_def)
qed

lemmas first_defs = removeExport_isTarget_def removeExport_findReferences_def
  getFirstUnusedExport_def getFirstUnusedExport_visit.simps findFirstNodeOfKind_def
  getLeadingComment_def IGNORE_COMMENT_def flatReferences_def slice_def

section \<open>A barrel file and a file without exports\<close>

definition wild_text :: string where
  "wild_text = ''export * from '' @ [CHR 0x27] @ ''./m'' @ [CHR 0x27] @ '';''"

definition wild_from :: Node where
  "wild_from = Node StringLiteral 13 14 19 [] [] None None [] ''./m''"

definition wild_decl :: Node where
  "wild_decl =
     Node ExportDeclaration 0 0 20 [wild_from]
       [tok ExportKeyword 0 0 6, tok (OtherKind ''AsteriskToken'') 6 7 8,
        tok (OtherKind ''FromKeyword'') 8 9 13, wild_from,
        tok (OtherKind ''SemicolonToken'') 19 19 20]
       None (Some wild_from) [] []"

definition wild_root :: Node where
  "wild_root = nd SourceFileKind 0 0 20 [wild_decl] []"

definition wild_ts :: SourceFile where
  "wild_ts = \<lparr>fileName = ''barrel.ts'', getFullText = wild_text, root = wild_root\<rparr>"

definition wild_program :: Program where
  "wild_program =
     \<lparr>getSourceFile = (\<lambda>f. if f = ''barrel.ts'' then Some wild_ts else None),
      resolveModuleName = (\<lambda>specifier fl fileService. None)\<rparr>"

definition wild_service :: LanguageService where
  "wild_service =
     \<lparr>getProgram = Some wild_program,
      service_findReferences = (\<lambda>f pos. None)\<rparr>"

lemmas wild_defs = wild_text_def wild_from_def wild_decl_def wild_root_def wild_ts_def
  wild_service_def wild_program_def plain_ts_def tok_def nd_def

definition local_text :: string where
  "local_text = ''const x = 1;''"

definition local_stmt :: Node where
  "local_stmt =
     nd VariableStatement 0 0 12
       [nd VariableDeclarationList 0 0 11
          [nd VariableDeclaration 5 6 11
             [tok Identifier 5 6 7, tok (OtherKind ''NumericLiteral'') 9 10 11] []] []]
       []"

definition local_root :: Node where
  "local_root = nd SourceFileKind 0 0 12 [local_stmt] []"

definition local_ts :: SourceFile where
  "local_ts = \<lparr>fileName = ''local.ts'', getFullText = local_text, root = local_root\<rparr>"

definition local_program :: Program where
  "local_program =
     \<lparr>getSourceFile = (\<lambda>f. if f = ''local.ts'' then Some local_ts else None),
      resolveModuleName = (\<lambda>specifier fl fileService. None)\<rparr>"

definition local_service :: LanguageService where
  "local_service =
     \<lparr>getProgram = Some local_program,
      service_findReferences = (\<lambda>f pos. None)\<rparr>"

lemmas local_defs = local_text_def local_stmt_def local_root_def local_ts_def
  local_service_def local_program_def plain_ts_def tok_def nd_def

text \<open>A secondary fix that is not called, or changes nothing.\<close>

definition no_fix :: "FixId \<Rightarrow> string \<Rightarrow> FileService \<Rightarrow> string" where
  "no_fix fixId fl fileService = fs_get fileService fl"

lemmas driver_defs = removeUnusedExport_def removeUnusedExport_file_def
  removeUnusedExport_doWhile.simps fs_get_def fs_set_def fs_delete_def

lemma wild_facts:
  "getProgram wild_service = Some wild_program"
  "getSourceFile wild_program ''barrel.ts'' = Some wild_ts"
  "getFullText wild_ts = wild_text"
  by (simp_all add: wild_service_def wild_program_def wild_ts_def)

lemma local_facts:
  "getProgram local_service = Some local_program"
  "getSourceFile local_program ''local.ts'' = Some local_ts"
  "getFullText local_ts = local_text"
  by (simp_all add: local_service_def local_program_def local_ts_def)

lemma vars_facts:
  "getProgram vars_service = Some vars_program"
  "getSourceFile vars_program ''vars.ts'' = Some vars_ts"
  "getFullText vars_ts = vars_text"
  by (simp_all add: vars_service_def vars_program_def vars_ts_def)

lemma wild_run:
  "getUnusedExports plain_ts wild_service wild_ts fs = Some (Inr ([], True))"
  by (simp add: eval_defs wild_defs)

lemma wild_changes:
  "getTextChanges plain_ts wild_service ''barrel.ts'' log fs
     = Some (log, Inr \<lparr>changes = [], is_done = True, isUsed = True\<rparr>)"
proof -
  have sf: "(case getProgram wild_service of None \<Rightarrow> None
             | Some program \<Rightarrow> getSourceFile program ''barrel.ts'') = Some wild_ts"
    by (simp add: wild_service_def wild_program_def)
  show ?thesis by (simp add: getTextChanges_def sf wild_run)
qed

lemma local_run:
  "getUnusedExports plain_ts local_service local_ts fs = Some (Inr ([], False))"
  by (simp add: eval_defs local_defs)

lemma local_changes:
  "getTextChanges plain_ts local_service ''local.ts'' log fs
     = Some (log, Inr \<lparr>changes = [], is_done = True, isUsed = False\<rparr>)"
proof -
  have sf: "(case getProgram local_service of None \<Rightarrow> None
             | Some program \<Rightarrow> getSourceFile program ''local.ts'') = Some local_ts"
    by (simp add: local_service_def local_program_def)
  show ?thesis by (simp add: getTextChanges_def sf local_run)
qed

lemma wild_driver:
  "removeUnusedExport plain_ts (\<lambda>fs. wild_service) applyTextChanges no_fix
       [''barrel.ts'' \<mapsto> wild_text]
     [''barrel.ts''] True False []
   = Some (None, [''barrel.ts'' \<mapsto> wild_text],
           [TrackStart ''barrel.ts'' wild_text, TrackEnd ''barrel.ts''])"
  by (simp add: driver_defs wild_changes wild_facts)


lemma local_driver_keep:
  "removeUnusedExport plain_ts (\<lambda>fs. local_service) applyTextChanges no_fix
       [''local.ts'' \<mapsto> local_text]
     [''local.ts''] False False []
   = Some (None, [''local.ts'' \<mapsto> local_text],
           [TrackStart ''local.ts'' local_text, TrackEnd ''local.ts''])"
  by (simp add: driver_defs local_changes local_facts)


lemma local_driver_delete:
  "removeUnusedExport plain_ts (\<lambda>fs. local_service) applyTextChanges no_fix
       [''local.ts'' \<mapsto> local_text]
     [''local.ts''] True False []
   = Some (None, Map.empty,
           [TrackStart ''local.ts'' local_text, TrackDelete ''local.ts''])"
  by (simp add: driver_defs local_changes local_facts)


lemma vars_driver_keep:
  "removeUnusedExport plain_ts (\<lambda>fs. vars_service) applyTextChanges no_fix
       [''vars.ts'' \<mapsto> vars_text]
     [''vars.ts''] False False []
   = Some (None, [''vars.ts'' \<mapsto> ''const a = 1, b = 2;''],
           [TrackStart ''vars.ts'' vars_text, TrackRemoveExport ''vars.ts'' 0 ''a'',
            TrackEnd ''vars.ts''])"
  by (simp add: driver_defs vars_changes vars_applied vars_facts)


lemma vars_driver_delete:
  "removeUnusedExport plain_ts (\<lambda>fs. vars_service) applyTextChanges no_fix
       [''vars.ts'' \<mapsto> vars_text]
     [''vars.ts''] True False []
   = Some (None, Map.empty,
           [TrackStart ''vars.ts'' vars_text, TrackRemoveExport ''vars.ts'' 0 ''a'',
            TrackDelete ''vars.ts''])"
  by (simp add: driver_defs vars_changes vars_applied vars_facts)

section \<open>An export declaration of three specifiers\<close>

text \<open>
  The file \<open>abc.ts\<close> is one export declaration of named exports, first
  \<open>export { a, b, c };\<close>. The trees below are those of the declaration with the
  specifiers given, each a one-letter name at its offset; the token children,
  which the edit of a specifier does not read, are left out.
\<close>

definition abc_spec :: "string \<Rightarrow> nat \<Rightarrow> Node" where
  "abc_spec name p =
     Node ExportSpecifier (p - 1) p (p + 1)
       [Node Identifier (p - 1) p (p + 1) [] [] None None [] name] []
       None None [] []"

definition abc_named :: "Node list \<Rightarrow> nat \<Rightarrow> Node" where
  "abc_named specs e = Node NamedExports 6 7 (e - 1) specs [] None None specs []"

definition abc_decl :: "Node list \<Rightarrow> nat \<Rightarrow> Node" where
  "abc_decl specs e =
     Node ExportDeclaration 0 0 e [abc_named specs e] [] (Some (abc_named specs e)) None [] []"

definition abc_root :: "Node list \<Rightarrow> nat \<Rightarrow> Node" where
  "abc_root specs e = nd SourceFileKind 0 0 e [abc_decl specs e] []"

definition abc_file :: "string \<Rightarrow> Node list \<Rightarrow> string \<Rightarrow> SourceFile" where
  "abc_file name specs content =
     \<lparr>fileName = name, getFullText = content, root = abc_root specs (length content)\<rparr>"

definition abc_text :: string where
  "abc_text = ''export { a, b, c };''"

definition abc_specs :: "Node list" where
  "abc_specs = [abc_spec ''a'' 9, abc_spec ''b'' 12, abc_spec ''c'' 15]"

definition bc_text :: string where
  "bc_text = ''export { b, c };''"

definition bc_specs :: "Node list" where
  "bc_specs = [abc_spec ''b'' 9, abc_spec ''c'' 12]"

definition c_text :: string where
  "c_text = ''export { c };''"

definition c_specs :: "Node list" where
  "c_specs = [abc_spec ''c'' 9]"

text \<open>
  The parser and the printer of the regeneration: the parser knows the two texts
  it is given here, and the printer prints an export declaration of named
  exports as the compiler's printer does, \<open>export { a, c };\<close> and a line break.
\<close>

fun join :: "string \<Rightarrow> string list \<Rightarrow> string" where
  "join sep [] = []"
| "join sep [x] = x"
| "join sep (x # y # ys) = x @ sep @ join sep (y # ys)"

definition print_specifier :: "Node \<Rightarrow> string" where
  "print_specifier n = join '' as '' (map literalText (forEachChild n))"

definition print_export :: "Node \<Rightarrow> string" where
  "print_export d =
     (case exportClause d of
        None \<Rightarrow> []
      | Some ne \<Rightarrow>
          ''export { '' @ join '', '' (map print_specifier (elements ne)) @ '' };''
          @ [CHR 0x0A])"

definition abc_tools :: TS where
  "abc_tools =
     \<lparr>getLeadingCommentRanges = (\<lambda>content pos. None),
      createSourceFile =
        (\<lambda>content. if content = abc_text then abc_file ''tmp.ts'' abc_specs abc_text
                   else if content = bc_text then abc_file ''tmp.ts'' bc_specs bc_text
                   else \<lparr>fileName = ''tmp.ts'', getFullText = content,
                         root = tok SourceFileKind 0 0 0\<rparr>),
      printFile = (\<lambda>sf. concat (map print_export (forEachChild (root sf))))\<rparr>"

text \<open>
  A language service for one state of \<open>abc.ts\<close>: every name is referenced in the
  file itself, and the names at the offsets \<open>used\<close> from \<open>main.ts\<close> too.
\<close>

definition abc_refs :: "nat list \<Rightarrow> nat \<Rightarrow> ReferencedSymbol list" where
  "abc_refs used pos =
     \<lparr>definition_fileName = ''abc.ts'',
      references =
        [\<lparr>ref_fileName = ''abc.ts'', textSpan = \<lparr>span_start = pos, span_length = 1\<rparr>\<rparr>]\<rparr>
     # (if pos \<in> set used
        then [\<lparr>definition_fileName = ''main.ts'',
               references =
                 [\<lparr>ref_fileName = ''main.ts'',
                   textSpan = \<lparr>span_start = 9, span_length = 1\<rparr>\<rparr>]\<rparr>]
        else [])"

definition abc_program :: "SourceFile \<Rightarrow> Program" where
  "abc_program sf =
     \<lparr>getSourceFile = (\<lambda>f. if f = ''abc.ts'' then Some sf else None),
      resolveModuleName = (\<lambda>specifier fl fileService. None)\<rparr>"

definition abc_service :: "SourceFile \<Rightarrow> nat list \<Rightarrow> LanguageService" where
  "abc_service sf used =
     \<lparr>getProgram = Some (abc_program sf),
      service_findReferences =
        (\<lambda>f pos. if f = ''abc.ts'' then Some (abc_refs used pos) else None)\<rparr>"

text \<open>
  The language service that reads \<open>abc.ts\<close> from the file store, where no name is
  referenced from another file.
\<close>

definition abc_host :: "FileService \<Rightarrow> LanguageService" where
  "abc_host fileService =
     (if fileService ''abc.ts'' = Some abc_text
        then abc_service (abc_file ''abc.ts'' abc_specs abc_text) []
      else if fileService ''abc.ts'' = Some bc_text
        then abc_service (abc_file ''abc.ts'' bc_specs bc_text) []
      else if fileService ''abc.ts'' = Some c_text
        then abc_service (abc_file ''abc.ts'' c_specs c_text) []
      else abc_service \<lparr>fileName = ''abc.ts'', getFullText = fs_get fileService ''abc.ts'',
                         root = tok SourceFileKind 0 0 0\<rparr> [])"

lemmas abc_defs = abc_spec_def abc_named_def abc_decl_def abc_root_def abc_file_def
  abc_text_def abc_specs_def bc_text_def bc_specs_def c_text_def c_specs_def
  print_specifier_def print_export_def abc_tools_def abc_refs_def abc_program_def
  abc_service_def tok_def nd_def

lemmas regen_defs = getUpdatedExportDeclaration_def trim_def isWhiteSpace_def

lemma abc_b_run:
  "getUnusedExports abc_tools (abc_service (abc_file ''abc.ts'' abc_specs abc_text) [9, 15])
     (abc_file ''abc.ts'' abc_specs abc_text) fs
   = Some (Inr ([(abc_spec ''b'' 12,
                  [abc_named abc_specs 19, abc_decl abc_specs 19, abc_root abc_specs 19])],
                True))"
  by (simp add: eval_defs abc_defs parentParent_def)

lemma abc_all_run:
  "getUnusedExports abc_tools (abc_service (abc_file ''abc.ts'' abc_specs abc_text) [])
     (abc_file ''abc.ts'' abc_specs abc_text) fs
   = Some (Inr ([(abc_spec ''a'' 9,
                  [abc_named abc_specs 19, abc_decl abc_specs 19, abc_root abc_specs 19]),
                 (abc_spec ''b'' 12,
                  [abc_named abc_specs 19, abc_decl abc_specs 19, abc_root abc_specs 19]),
                 (abc_spec ''c'' 15,
                  [abc_named abc_specs 19, abc_decl abc_specs 19, abc_root abc_specs 19])],
                False))"
  by (simp add: eval_defs abc_defs parentParent_def)

lemma abc_regen_b:
  "getUpdatedExportDeclaration abc_tools (abc_file ''abc.ts'' abc_specs abc_text)
     (abc_decl abc_specs 19) (abc_spec ''b'' 12) = ''export { a, c };''"
  by (simp add: regen_defs abc_defs getText_def slice_def)

lemma abc_regen_a:
  "getUpdatedExportDeclaration abc_tools (abc_file ''abc.ts'' abc_specs abc_text)
     (abc_decl abc_specs 19) (abc_spec ''a'' 9) = ''export { b, c };''"
  by (simp add: regen_defs abc_defs getText_def slice_def)

lemma abc_sf:
  "(case getProgram (abc_service sf used) of None \<Rightarrow> None
    | Some program \<Rightarrow> getSourceFile program ''abc.ts'') = Some sf"
  by (simp add: abc_service_def abc_program_def)

lemma abc_b_changes:
  "getTextChanges abc_tools (abc_service (abc_file ''abc.ts'' abc_specs abc_text) [9, 15])
     ''abc.ts'' log fs
   = Some (log @ [TrackRemoveExport ''abc.ts'' 12 ''export { b };''],
           Inr \<lparr>changes = [\<lparr>newText = ''export { a, c };'',
                             span = \<lparr>span_start = 0, span_length = 19\<rparr>\<rparr>],
                is_done = False, isUsed = True\<rparr>)"
  by (simp add: getTextChanges_def abc_sf)
     (simp add: eval_defs edit_defs regen_defs abc_defs)

lemma abc_all_changes:
  "getTextChanges abc_tools (abc_service (abc_file ''abc.ts'' abc_specs abc_text) [])
     ''abc.ts'' log fs
   = Some (log @ [TrackRemoveExport ''abc.ts'' 9 ''export { a };''],
           Inr \<lparr>changes = [\<lparr>newText = ''export { b, c };'',
                             span = \<lparr>span_start = 0, span_length = 19\<rparr>\<rparr>],
                is_done = False, isUsed = False\<rparr>)"
  by (simp add: getTextChanges_def abc_sf)
     (simp add: eval_defs edit_defs regen_defs abc_defs)

lemma bc_changes:
  "getTextChanges abc_tools (abc_service (abc_file ''abc.ts'' bc_specs bc_text) [])
     ''abc.ts'' log fs
   = Some (log @ [TrackRemoveExport ''abc.ts'' 9 ''export { b };''],
           Inr \<lparr>changes = [\<lparr>newText = ''export { c };'',
                             span = \<lparr>span_start = 0, span_length = 16\<rparr>\<rparr>],
                is_done = False, isUsed = False\<rparr>)"
  by (simp add: getTextChanges_def abc_sf)
     (simp add: eval_defs edit_defs regen_defs abc_defs)

lemma c_changes:
  "getTextChanges abc_tools (abc_service (abc_file ''abc.ts'' c_specs c_text) [])
     ''abc.ts'' log fs
   = Some (log @ [TrackRemoveExport ''abc.ts'' 0 ''export { c };''],
           Inr \<lparr>changes = [\<lparr>newText = [],
                             span = \<lparr>span_start = 0, span_length = 13\<rparr>\<rparr>],
                is_done = True, isUsed = False\<rparr>)"
  by (simp add: getTextChanges_def abc_sf)
     (simp add: eval_defs edit_defs regen_defs abc_defs)

lemma abc_applied:
  "applyTextChanges abc_text
     [\<lparr>newText = ''export { a, c };'', span = \<lparr>span_start = 0, span_length = 19\<rparr>\<rparr>]
   = ''export { a, c };''"
  "applyTextChanges abc_text
     [\<lparr>newText = ''export { b, c };'', span = \<lparr>span_start = 0, span_length = 19\<rparr>\<rparr>]
   = bc_text"
  "applyTextChanges bc_text
     [\<lparr>newText = ''export { c };'', span = \<lparr>span_start = 0, span_length = 16\<rparr>\<rparr>]
   = c_text"
  "applyTextChanges c_text [\<lparr>newText = [], span = \<lparr>span_start = 0, span_length = 13\<rparr>\<rparr>] = []"
  by (simp_all add: applyTextChanges_def applyTextChange_def abc_text_def bc_text_def c_text_def)

lemma abc_host_simps:
  "abc_host (fs(''abc.ts'' \<mapsto> abc_text)) = abc_service (abc_file ''abc.ts'' abc_specs abc_text) []"
  "abc_host (fs(''abc.ts'' \<mapsto> bc_text)) = abc_service (abc_file ''abc.ts'' bc_specs bc_text) []"
  "abc_host (fs(''abc.ts'' \<mapsto> c_text)) = abc_service (abc_file ''abc.ts'' c_specs c_text) []"
  by (simp_all add: abc_host_def abc_text_def bc_text_def c_text_def)

lemma abc_driver:
  "removeUnusedExport abc_tools abc_host applyTextChanges no_fix
       [''abc.ts'' \<mapsto> abc_text] [''abc.ts'']
     False False []
   = Some (None, [''abc.ts'' \<mapsto> []],
           [TrackStart ''abc.ts'' abc_text,
            TrackRemoveExport ''abc.ts'' 9 ''export { a };'',
            TrackRemoveExport ''abc.ts'' 9 ''export { b };'',
            TrackRemoveExport ''abc.ts'' 0 ''export { c };'',
            TrackEnd ''abc.ts''])"
proof -
  have p: "getProgram (abc_service sf used) = Some (abc_program sf)"
    "getSourceFile (abc_program sf) ''abc.ts'' = Some sf"
    "getFullText (abc_file n specs content) = content" for sf used n specs content
    by (simp_all add: abc_service_def abc_program_def abc_file_def)
  show ?thesis
    by (simp add: driver_defs abc_host_simps p abc_all_changes bc_changes c_changes abc_applied)
qed

section \<open>An exported async function\<close>

definition async_text :: string where
  "async_text = ''export async function f() {}''"

definition async_decl :: Node where
  "async_decl =
     nd FunctionDeclaration 0 0 28
       [tok ExportKeyword 0 0 6, tok (OtherKind ''AsyncKeyword'') 6 7 12,
        tok Identifier 21 22 23, tok (OtherKind ''Block'') 25 26 28]
       [nd SyntaxList 0 0 12
          [tok ExportKeyword 0 0 6, tok (OtherKind ''AsyncKeyword'') 6 7 12]
          [tok ExportKeyword 0 0 6, tok (OtherKind ''AsyncKeyword'') 6 7 12],
        tok (OtherKind ''FunctionKeyword'') 12 13 21,
        tok Identifier 21 22 23,
        tok (OtherKind ''OpenParenToken'') 23 23 24,
        tok SyntaxList 24 24 24,
        tok (OtherKind ''CloseParenToken'') 24 24 25,
        tok (OtherKind ''Block'') 25 26 28]"

definition async_root :: Node where
  "async_root = nd SourceFileKind 0 0 28 [async_decl] []"

definition async_ts :: SourceFile where
  "async_ts = \<lparr>fileName = ''async.ts'', getFullText = async_text, root = async_root\<rparr>"

definition async_refs :: "ReferencedSymbol list" where
  "async_refs =
     [\<lparr>definition_fileName = ''async.ts'',
       references =
         [\<lparr>ref_fileName = ''async.ts'', textSpan = \<lparr>span_start = 22, span_length = 1\<rparr>\<rparr>]\<rparr>]"

definition async_program :: Program where
  "async_program =
     \<lparr>getSourceFile = (\<lambda>f. if f = ''async.ts'' then Some async_ts else None),
      resolveModuleName = (\<lambda>specifier fl fileService. None)\<rparr>"

definition async_service :: LanguageService where
  "async_service =
     \<lparr>getProgram = Some async_program,
      service_findReferences =
        (\<lambda>f pos. if f = ''async.ts'' \<and> pos = 0 then Some async_refs else None)\<rparr>"

lemmas async_defs = async_text_def async_decl_def async_root_def async_ts_def async_refs_def
  async_program_def async_service_def plain_ts_def tok_def nd_def

lemma async_run:
  "getUnusedExports plain_ts async_service async_ts fs
     = Some (Inr ([(async_decl, [async_root])], False))"
  by (simp add: eval_defs async_defs)

lemma async_changes:
  "getTextChanges plain_ts async_service ''async.ts'' log fs
     = Some (log @ [TrackRemoveExport ''async.ts'' 0 ''f''],
             Inr \<lparr>changes = [\<lparr>newText = [], span = \<lparr>span_start = 0, span_length = 13\<rparr>\<rparr>],
                  is_done = True, isUsed = False\<rparr>)"
proof -
  have sf: "(case getProgram async_service of None \<Rightarrow> None
             | Some program \<Rightarrow> getSourceFile program ''async.ts'') = Some async_ts"
    by (simp add: async_service_def async_program_def)
  show ?thesis
    by (simp add: getTextChanges_def sf async_run)
       (simp add: async_defs edit_defs findFirstNodeOfKind_def slice_def)
qed

section \<open>A re-export from a module that does not resolve\<close>

definition miss_text :: string where
  "miss_text = ''export { x } from '' @ [CHR 0x27] @ ''./m'' @ [CHR 0x27] @ '';''"

definition miss_spec :: Node where
  "miss_spec = nd ExportSpecifier 8 9 10 [tok Identifier 8 9 10] [tok Identifier 8 9 10]"

definition miss_named :: Node where
  "miss_named =
     Node NamedExports 6 7 12 [miss_spec]
       [tok (OtherKind ''OpenBraceToken'') 6 7 8,
        nd SyntaxList 8 9 10 [miss_spec] [miss_spec],
        tok (OtherKind ''CloseBraceToken'') 10 11 12]
       None None [miss_spec] []"

definition miss_from :: Node where
  "miss_from = Node StringLiteral 17 18 23 [] [] None None [] ''./m''"

definition miss_decl :: Node where
  "miss_decl =
     Node ExportDeclaration 0 0 24 [miss_named, miss_from]
       [tok ExportKeyword 0 0 6, miss_named, tok (OtherKind ''FromKeyword'') 12 13 17,
        miss_from, tok (OtherKind ''SemicolonToken'') 23 23 24]
       (Some miss_named) (Some miss_from) [] []"

definition miss_root :: Node where
  "miss_root = nd SourceFileKind 0 0 24 [miss_decl] []"

definition miss_ts :: SourceFile where
  "miss_ts = \<lparr>fileName = ''miss.ts'', getFullText = miss_text, root = miss_root\<rparr>"

definition miss_refs :: "ReferencedSymbol list" where
  "miss_refs =
     [\<lparr>definition_fileName = ''miss.ts'',
       references =
         [\<lparr>ref_fileName = ''miss.ts'', textSpan = \<lparr>span_start = 9, span_length = 1\<rparr>\<rparr>]\<rparr>]"

definition miss_program :: Program where
  "miss_program =
     \<lparr>getSourceFile = (\<lambda>f. if f = ''miss.ts'' then Some miss_ts else None),
      resolveModuleName = (\<lambda>specifier fl fileService. None)\<rparr>"

definition miss_service :: LanguageService where
  "miss_service =
     \<lparr>getProgram = Some miss_program,
      service_findReferences =
        (\<lambda>f pos. if f = ''miss.ts'' \<and> pos = 9 then Some miss_refs else None)\<rparr>"

lemmas miss_defs = miss_text_def miss_spec_def miss_named_def miss_from_def
  miss_decl_def miss_root_def miss_ts_def miss_refs_def miss_program_def
  miss_service_def plain_ts_def tok_def nd_def

lemma miss_run:
  "getUnusedExports plain_ts miss_service miss_ts fs = Some (Inr ([], True))"
  by (simp add: eval_defs ancestor_defs miss_defs)

section \<open>A project of two target files\<close>

text \<open>
  The program holds \<open>vars.ts\<close> and \<open>barrel.ts\<close>; \<open>gone.ts\<close> is not in it.
\<close>

definition proj_program :: Program where
  "proj_program =
     \<lparr>getSourceFile = (\<lambda>f. if f = ''vars.ts'' then Some vars_ts
                            else if f = ''barrel.ts'' then Some wild_ts else None),
      resolveModuleName = (\<lambda>specifier fl fileService. None)\<rparr>"

definition proj_service :: LanguageService where
  "proj_service =
     \<lparr>getProgram = Some proj_program,
      service_findReferences =
        (\<lambda>f pos. if f = ''vars.ts'' \<and> pos = 13 then Some vars_a_refs else None)\<rparr>"

definition proj_store :: FileService where
  "proj_store = [''vars.ts'' \<mapsto> vars_text, ''barrel.ts'' \<mapsto> wild_text]"

lemma proj_facts:
  "getProgram proj_service = Some proj_program"
  "getSourceFile proj_program ''vars.ts'' = Some vars_ts"
  "getSourceFile proj_program ''barrel.ts'' = Some wild_ts"
  "getSourceFile proj_program ''gone.ts'' = None"
  by (simp_all add: proj_service_def proj_program_def)

lemma proj_run:
  "getUnusedExports plain_ts proj_service vars_ts fs
     = Some (Inr ([(vars_stmt, [vars_root])], False))"
  "getUnusedExports plain_ts proj_service wild_ts fs = Some (Inr ([], True))"
  by (simp_all add: eval_defs vars_defs wild_defs proj_service_def)

lemma proj_changes:
  "getTextChanges plain_ts proj_service ''vars.ts'' log fs
     = Some (log @ [TrackRemoveExport ''vars.ts'' 0 ''a''],
             Inr \<lparr>changes = [\<lparr>newText = [], span = \<lparr>span_start = 0, span_length = 7\<rparr>\<rparr>],
                  is_done = True, isUsed = False\<rparr>)"
  "getTextChanges plain_ts proj_service ''barrel.ts'' log fs
     = Some (log, Inr \<lparr>changes = [], is_done = True, isUsed = True\<rparr>)"
proof -
  have sf: "(case getProgram proj_service of None \<Rightarrow> None
             | Some program \<Rightarrow> getSourceFile program ''vars.ts'') = Some vars_ts"
    "(case getProgram proj_service of None \<Rightarrow> None
             | Some program \<Rightarrow> getSourceFile program ''barrel.ts'') = Some wild_ts"
    by (simp_all add: proj_service_def proj_program_def)
  show "getTextChanges plain_ts proj_service ''vars.ts'' log fs
     = Some (log @ [TrackRemoveExport ''vars.ts'' 0 ''a''],
             Inr \<lparr>changes = [\<lparr>newText = [], span = \<lparr>span_start = 0, span_length = 7\<rparr>\<rparr>],
                  is_done = True, isUsed = False\<rparr>)"
    by (simp add: getTextChanges_def sf proj_run)
       (simp add: vars_defs edit_defs findFirstNodeOfKind_def slice_def)
  show "getTextChanges plain_ts proj_service ''barrel.ts'' log fs
     = Some (log, Inr \<lparr>changes = [], is_done = True, isUsed = True\<rparr>)"
    by (simp add: getTextChanges_def sf proj_run)
qed

lemma proj_driver:
  "removeUnusedExport plain_ts (\<lambda>fs. proj_service) applyTextChanges no_fix proj_store
     [''vars.ts'', ''gone.ts'', ''barrel.ts''] True False []
   = Some (None, [''barrel.ts'' \<mapsto> wild_text],
           [TrackStart ''vars.ts'' vars_text, TrackRemoveExport ''vars.ts'' 0 ''a'',
            TrackDelete ''vars.ts'',
            TrackStart ''barrel.ts'' wild_text, TrackEnd ''barrel.ts''])"
  by (simp add: driver_defs proj_changes proj_facts vars_applied vars_facts(3) wild_facts(3)
        proj_store_def)


section \<open>A file that leaves the program\<close>

text \<open>
  A language service that has \<open>abc.ts\<close> in its program as long as the text of the
  file is the first one, and no file after that: the second pass of the loop
  throws \<open>source file not found\<close>.
\<close>

definition drop_host :: "FileService \<Rightarrow> LanguageService" where
  "drop_host fileService =
     (if fileService ''abc.ts'' = Some abc_text
        then abc_service (abc_file ''abc.ts'' abc_specs abc_text) []
      else \<lparr>getProgram = Some \<lparr>getSourceFile = (\<lambda>f. None),
                                resolveModuleName = (\<lambda>specifier fl fileService. None)\<rparr>,
            service_findReferences = (\<lambda>f pos. None)\<rparr>)"

lemma drop_driver:
  "removeUnusedExport abc_tools drop_host applyTextChanges no_fix [''abc.ts'' \<mapsto> abc_text]
     [''abc.ts''] False False []
   = Some (Some SourceFileNotFound, [''abc.ts'' \<mapsto> bc_text],
           [TrackStart ''abc.ts'' abc_text,
            TrackRemoveExport ''abc.ts'' 9 ''export { a };''])"
proof -
  have p: "getProgram (abc_service sf used) = Some (abc_program sf)"
    "getSourceFile (abc_program sf) ''abc.ts'' = Some sf"
    "getFullText (abc_file n specs content) = content" for sf used n specs content
    by (simp_all add: abc_service_def abc_program_def abc_file_def)
  have h: "drop_host [''abc.ts'' \<mapsto> abc_text]
             = abc_service (abc_file ''abc.ts'' abc_specs abc_text) []"
    by (simp add: drop_host_def)
  have g: "getTextChanges abc_tools (drop_host [''abc.ts'' \<mapsto> bc_text]) ''abc.ts'' l
             [''abc.ts'' \<mapsto> bc_text] = Some (l, Inl SourceFileNotFound)" for l
    by (simp add: drop_host_def getTextChanges_def abc_text_def bc_text_def)
  show ?thesis
    by (simp add: driver_defs h p abc_all_changes abc_applied g)
qed

section \<open>A re-export from a module that resolves\<close>

text \<open>
  The file \<open>miss.ts\<close> again, \<open>export { x } from './m';\<close>, in a program where
  \<open>./m\<close> resolves to \<open>m.ts\<close>, the file \<open>export const x = 1;\<close>, and the
  references of \<open>x\<close> are the specifier and the declaration in \<open>m.ts\<close>.
\<close>

definition m_text :: string where
  "m_text = ''export const x = 1;''"

definition m_list :: Node where
  "m_list =
     nd VariableDeclarationList 6 7 18
       [nd VariableDeclaration 12 13 18
          [tok Identifier 12 13 14, tok (OtherKind ''NumericLiteral'') 16 17 18] []] []"

definition m_stmt :: Node where
  "m_stmt =
     nd VariableStatement 0 0 19
       [tok ExportKeyword 0 0 6, m_list]
       [nd SyntaxList 0 0 6 [tok ExportKeyword 0 0 6] [tok ExportKeyword 0 0 6],
        m_list,
        tok (OtherKind ''SemicolonToken'') 18 18 19]"

definition m_ts :: SourceFile where
  "m_ts = \<lparr>fileName = ''m.ts'', getFullText = m_text,
            root = nd SourceFileKind 0 0 19 [m_stmt] []\<rparr>"

definition fwd_refs :: "ReferencedSymbol list" where
  "fwd_refs =
     [\<lparr>definition_fileName = ''miss.ts'',
       references =
         [\<lparr>ref_fileName = ''miss.ts'', textSpan = \<lparr>span_start = 9, span_length = 1\<rparr>\<rparr>]\<rparr>,
      \<lparr>definition_fileName = ''m.ts'',
       references =
         [\<lparr>ref_fileName = ''m.ts'', textSpan = \<lparr>span_start = 13, span_length = 1\<rparr>\<rparr>]\<rparr>]"

definition fwd_program :: Program where
  "fwd_program =
     \<lparr>getSourceFile = (\<lambda>f. if f = ''miss.ts'' then Some miss_ts
                            else if f = ''m.ts'' then Some m_ts else None),
      resolveModuleName =
        (\<lambda>specifier fl fileService.
            if specifier = ''./m'' \<and> fl = ''miss.ts'' then Some ''m.ts'' else None)\<rparr>"

definition fwd_service :: LanguageService where
  "fwd_service =
     \<lparr>getProgram = Some fwd_program,
      service_findReferences =
        (\<lambda>f pos. if f = ''miss.ts'' \<and> pos = 9 then Some fwd_refs else None)\<rparr>"

lemmas fwd_defs = m_text_def m_list_def m_stmt_def m_ts_def fwd_refs_def fwd_program_def
  fwd_service_def

lemma fwd_ancestors:
  "getAncestorFiles (miss_spec, [miss_named, miss_decl, miss_root]) fwd_refs fs
     fwd_program ''miss.ts'' = Some (Inr (Some {''m.ts''}))"
  by (simp add: ancestor_defs miss_defs fwd_defs)

lemma fwd_run:
  "getUnusedExports plain_ts fwd_service miss_ts fs
     = Some (Inr ([(miss_spec, [miss_named, miss_decl, miss_root])], False))"
  by (simp add: eval_defs ancestor_defs miss_defs fwd_defs)

section \<open>A function used through a namespace import\<close>

text \<open>
  The file \<open>ns.ts\<close> is \<open>export function helper() {}\<close>, and \<open>main.ts\<close> is
  \<open>import * as ns from './ns'; ns.helper();\<close>. The call \<open>ns.helper\<close> names the
  function itself, not an alias declared in \<open>main.ts\<close>: the language service
  answers with one referenced symbol, defined in \<open>ns.ts\<close>, that holds the
  declaration and the reference in \<open>main.ts\<close>.
\<close>

definition ns_text :: string where
  "ns_text = ''export function helper() {}''"

definition ns_root :: Node where
  "ns_root = nd SourceFileKind 0 0 27 [helper_decl] []"

definition ns_ts :: SourceFile where
  "ns_ts = \<lparr>fileName = ''ns.ts'', getFullText = ns_text, root = ns_root\<rparr>"

definition ns_refs :: "ReferencedSymbol list" where
  "ns_refs =
     [\<lparr>definition_fileName = ''ns.ts'',
       references =
         [\<lparr>ref_fileName = ''ns.ts'', textSpan = \<lparr>span_start = 16, span_length = 6\<rparr>\<rparr>,
          \<lparr>ref_fileName = ''main.ts'', textSpan = \<lparr>span_start = 31, span_length = 6\<rparr>\<rparr>]\<rparr>]"

definition ns_program :: Program where
  "ns_program =
     \<lparr>getSourceFile = (\<lambda>f. if f = ''ns.ts'' then Some ns_ts else None),
      resolveModuleName = (\<lambda>specifier fl fileService. None)\<rparr>"

definition ns_service :: LanguageService where
  "ns_service =
     \<lparr>getProgram = Some ns_program,
      service_findReferences =
        (\<lambda>f pos. if f = ''ns.ts'' \<and> pos = 0 then Some ns_refs else None)\<rparr>"

lemmas ns_defs = ns_text_def ns_root_def ns_ts_def ns_refs_def ns_program_def ns_service_def
  helper_decl_def plain_ts_def tok_def nd_def

lemma ns_facts:
  "getProgram ns_service = Some ns_program"
  "getSourceFile ns_program ''ns.ts'' = Some ns_ts"
  "getFullText ns_ts = ns_text"
  by (simp_all add: ns_service_def ns_program_def ns_ts_def)

lemma ns_run:
  "getUnusedExports plain_ts ns_service ns_ts fs
     = Some (Inr ([(helper_decl, [ns_root])], False))"
  by (simp add: eval_defs ns_defs)

lemma ns_changes:
  "getTextChanges plain_ts ns_service ''ns.ts'' log fs
     = Some (log @ [TrackRemoveExport ''ns.ts'' 0 ''helper''],
             Inr \<lparr>changes = [\<lparr>newText = [], span = \<lparr>span_start = 0, span_length = 7\<rparr>\<rparr>],
                  is_done = True, isUsed = False\<rparr>)"
proof -
  have sf: "(case getProgram ns_service of None \<Rightarrow> None
             | Some program \<Rightarrow> getSourceFile program ''ns.ts'') = Some ns_ts"
    by (simp add: ns_service_def ns_program_def)
  show ?thesis
    by (simp add: getTextChanges_def sf ns_run)
       (simp add: ns_defs edit_defs findFirstNodeOfKind_def slice_def)
qed

lemma ns_applied:
  "applyTextChanges ns_text [\<lparr>newText = [], span = \<lparr>span_start = 0, span_length = 7\<rparr>\<rparr>]
     = ''function helper() {}''"
  by (simp add: edit_defs ns_text_def)

lemma ns_first:
  "getFirstUnusedExport plain_ts ns_ts ns_service = Inr None"
  by (simp add: first_defs ns_defs)

lemma ns_driver_keep:
  "removeUnusedExport plain_ts (\<lambda>fs. ns_service) applyTextChanges no_fix
       [''ns.ts'' \<mapsto> ns_text]
     [''ns.ts''] False False []
   = Some (None, [''ns.ts'' \<mapsto> ''function helper() {}''],
           [TrackStart ''ns.ts'' ns_text, TrackRemoveExport ''ns.ts'' 0 ''helper'',
            TrackEnd ''ns.ts''])"
  by (simp add: driver_defs ns_changes ns_applied ns_facts)

lemma ns_driver_delete:
  "removeUnusedExport plain_ts (\<lambda>fs. ns_service) applyTextChanges no_fix
       [''ns.ts'' \<mapsto> ns_text]
     [''ns.ts''] True False []
   = Some (None, Map.empty,
           [TrackStart ''ns.ts'' ns_text, TrackRemoveExport ''ns.ts'' 0 ''helper'',
            TrackDelete ''ns.ts''])"
  by (simp add: driver_defs ns_changes ns_applied ns_facts)



section \<open>The claims\<close>

text \<open>
  Claim C1 at a namespace import. The function \<open>helper\<close> of \<open>ns.ts\<close> is called
  from \<open>main.ts\<close> as \<open>ns.helper()\<close>: of its two references one lies outside
  \<open>ns.ts\<close>, so the partition of the reference set outside the file of the
  candidate is not empty. \<open>getUnusedExports\<close> filters the referenced symbols by
  the file of their definition, not the references by the file they lie in; the
  one symbol is defined in \<open>ns.ts\<close>, nothing is left, and \<open>helper\<close> is
  classified unused. The run removes the export keyword, and with file deletion
  requested it deletes \<open>ns.ts\<close>, while \<open>main.ts\<close> still imports it.
  \<open>getFirstUnusedExport\<close> of \<open>removeExport.ts\<close>, which counts every reference,
  does not select \<open>helper\<close>.
\<close>

theorem namespace_import_use_is_removed:
  "findReferences ns_ts helper_decl ns_service = Inr (Some ns_refs)
   \<and> filter (\<lambda>r. ref_fileName r \<noteq> fileName ns_ts) (flatReferences ns_refs)
       = [\<lparr>ref_fileName = ''main.ts'', textSpan = \<lparr>span_start = 31, span_length = 6\<rparr>\<rparr>]
   \<and> keptReferences (\<lambda>v. definition_fileName v \<noteq> fileName ns_ts) ns_refs = []
   \<and> getUnusedExports plain_ts ns_service ns_ts [''ns.ts'' \<mapsto> ns_text]
       = Some (Inr ([(helper_decl, [ns_root])], False))
   \<and> removeUnusedExport plain_ts (\<lambda>fs. ns_service) applyTextChanges no_fix
        [''ns.ts'' \<mapsto> ns_text] [''ns.ts''] False False []
       = Some (None, [''ns.ts'' \<mapsto> ''function helper() {}''],
               [TrackStart ''ns.ts'' ns_text, TrackRemoveExport ''ns.ts'' 0 ''helper'',
                TrackEnd ''ns.ts''])
   \<and> removeUnusedExport plain_ts (\<lambda>fs. ns_service) applyTextChanges no_fix
        [''ns.ts'' \<mapsto> ns_text] [''ns.ts''] True False []
       = Some (None, Map.empty,
               [TrackStart ''ns.ts'' ns_text, TrackRemoveExport ''ns.ts'' 0 ''helper'',
                TrackDelete ''ns.ts''])
   \<and> getFirstUnusedExport plain_ts ns_ts ns_service = Inr None"
proof -
  have a: "findReferences ns_ts helper_decl ns_service = Inr (Some ns_refs)"
    by (simp add: eval_defs ns_defs)
  have b: "filter (\<lambda>r. ref_fileName r \<noteq> fileName ns_ts) (flatReferences ns_refs)
       = [\<lparr>ref_fileName = ''main.ts'', textSpan = \<lparr>span_start = 31, span_length = 6\<rparr>\<rparr>]"
    by (simp add: flatReferences_def ns_refs_def ns_ts_def)
  have c: "keptReferences (\<lambda>v. definition_fileName v \<noteq> fileName ns_ts) ns_refs = []"
    by (simp add: keptReferences_def flatReferences_def ns_refs_def ns_ts_def)
  from a b c ns_run[of "[''ns.ts'' \<mapsto> ns_text]"] ns_driver_keep ns_driver_delete ns_first
  show ?thesis by (intro conjI)
qed


text \<open>
  Claim C6. A candidate whose leading comment contains the skip marker makes
  the visit flag the file used and return, whatever the language service would
  answer (the equation holds for every service, so the reference index is not
  asked); the candidate is never among the unused nodes, even with no reference
  outside its file. In \<open>removeExport.ts\<close> such a node is no target and
  \<open>getFirstUnusedExport\<close> never returns it.
\<close>

theorem skip_comment_forces_used:
  assumes "isTarget node"
    and "str_includes (getLeadingComment ts sf node) IGNORE_COMMENT"
  shows "visit ts ls fs p sf anc node st = Some (Inr (fst st, True))
       \<and> (getUnusedExports ts ls sf fs = Some (Inr (nodes, used))
            \<longrightarrow> (node, anc) \<notin> set nodes \<and> (walked sf anc node \<longrightarrow> used))
       \<and> \<not> removeExport_isTarget ts sf node
       \<and> getFirstUnusedExport ts sf ls \<noteq> Inr (Some node)"
proof -
  have step: "\<And>ls p anc st. visit ts ls fs p sf anc node st = Some (Inr (fst st, True))"
    by (rule visit_skip[OF assms])
  have a: "(node, anc) \<notin> set nodes \<and> (walked sf anc node \<longrightarrow> used)"
    if run: "getUnusedExports ts ls sf fs = Some (Inr (nodes, used))"
  proof -
    from getUnusedExports_run[OF run] obtain p where
      r: "visit_each ts ls fs p sf [root sf] (forEachChild (root sf)) ([], False)
            = Some (Inr (nodes, used))" by blast
    have "(node, anc) \<notin> set nodes"
    proof
      assume "(node, anc) \<in> set nodes"
      with visit_origin(2)[OF r] have "pushedAt ts ls fs p sf (node, anc)" by auto
      then show False by (auto simp: pushedAt_def step)
    qed
    moreover have "used" if "walked sf anc node"
      using walked_visited[OF that r] by (auto simp: step)
    ultimately show ?thesis by blast
  qed
  have b: "\<not> removeExport_isTarget ts sf node"
    by (rule removeExport_isTarget_skip[OF assms(2)])
  have c: "getFirstUnusedExport ts sf ls \<noteq> Inr (Some node)"
  proof
    assume "getFirstUnusedExport ts sf ls = Inr (Some node)"
    then have "getFirstUnusedExport_each ts ls sf (forEachChild (root sf)) None = Inr (Some node)"
      by (simp add: getFirstUnusedExport_def)
    from getFirstUnusedExport_target(2)[OF this] b show False by simp
  qed
  from step a b c show ?thesis by blast
qed

theorem skip_comment_forces_used_witness:
  "isTarget skip_stmt
   \<and> str_includes (getLeadingComment comment_ts skip_ts skip_stmt) IGNORE_COMMENT
   \<and> walked skip_ts [skip_root] skip_stmt
   \<and> findReferences skip_ts skip_stmt skip_service = Inr (Some skip_refs)
   \<and> keptReferences (\<lambda>v. definition_fileName v \<noteq> fileName skip_ts) skip_refs = []
   \<and> getUnusedExports comment_ts skip_service skip_ts Map.empty = Some (Inr ([], True))
   \<and> (skip_stmt, [skip_root]) \<notin> set ([] :: NodeRef list)
   \<and> \<not> removeExport_isTarget comment_ts skip_ts skip_stmt
   \<and> getFirstUnusedExport comment_ts skip_ts skip_service \<noteq> Inr (Some skip_stmt)"
proof -
  have t: "isTarget skip_stmt" by (simp add: eval_defs skip_defs)
  have s: "str_includes (getLeadingComment comment_ts skip_ts skip_stmt) IGNORE_COMMENT"
    by (simp add: eval_defs skip_defs)
  have w: "walked skip_ts [skip_root] skip_stmt"
    using walked.top[of skip_stmt skip_ts] by (simp add: skip_ts_def skip_root_def nd_def)
  have f: "findReferences skip_ts skip_stmt skip_service = Inr (Some skip_refs)"
    by (simp add: eval_defs skip_defs)
  have k: "keptReferences (\<lambda>v. definition_fileName v \<noteq> fileName skip_ts) skip_refs = []"
    by (simp add: keptReferences_def flatReferences_def skip_refs_def skip_ts_def)
  note run = skip_run[of Map.empty]
  from skip_comment_forces_used[OF t s, of skip_service Map.empty _ "[skip_root]" _ "[]" True] run
  have "(skip_stmt, [skip_root]) \<notin> set ([] :: NodeRef list)
     \<and> \<not> removeExport_isTarget comment_ts skip_ts skip_stmt
     \<and> getFirstUnusedExport comment_ts skip_ts skip_service \<noteq> Inr (Some skip_stmt)"
    by blast
  with t s w f k run show ?thesis by blast
qed



text \<open>
  Claim C4, as amended. The comparison of the number of references, all files
  taken together, with a fixed number is what \<open>getFirstUnusedExport\<close> of
  \<open>removeExport.ts\<close> does: a target whose reference set the service returns is
  the node returned by its visit if and only if that number is 1, or the target
  is an export specifier and the number is 2. \<open>getUnusedExports\<close> compares the
  total with nothing. Its visit of a target, whatever the kind of the target,
  puts it in the list of unused nodes if and only if the target has no skip
  comment, the service returns its reference set, and the references counted
  are none: those of the referenced symbols defined in a file other than that of
  the target and, for a forwarding specifier, whose ancestry must not be null,
  other than the files of the ancestry. The same holds of the list returned by
  \<open>getUnusedExports\<close> for every target the walk reaches. Where every reference
  lies in the file of the definition of its referenced symbol, the references
  counted are those that lie outside the file of the target (and outside the
  files of the ancestry).
\<close>

theorem unused_by_count_or_by_definition_file:
  "(removeExport_isTarget ts sf node \<longrightarrow>
      removeExport_findReferences sf node ls = Inr (Some allRefs) \<longrightarrow>
        (getFirstUnusedExport_visit ts ls sf node None = Inr (Some node)
           \<longleftrightarrow> (length (flatReferences allRefs) = 1
                \<or> (kind node = ExportSpecifier \<and> length (flatReferences allRefs) = 2))))
   \<and> (isTarget node \<longrightarrow>
        (visit ts ls fs p sf anc node st = Some (Inr (fst st @ [(node, anc)], snd st))
           \<longleftrightarrow> \<not> str_includes (getLeadingComment ts sf node) IGNORE_COMMENT
               \<and> (\<exists>refs. findReferences sf node ls = Inr (Some refs)
                    \<and> (isReexport node anc = Inr False
                          \<and> keptReferences (\<lambda>v. definition_fileName v \<noteq> fileName sf) refs = []
                        \<or> isReexport node anc = Inr True
                          \<and> (\<exists>ancestors.
                                getAncestorFiles (node, anc) refs fs p (fileName sf)
                                  = Some (Inr (Some ancestors))
                              \<and> keptReferences
                                   (\<lambda>v. definition_fileName v \<noteq> fileName sf
                                        \<and> definition_fileName v \<notin> ancestors) refs = [])))))
   \<and> (isTarget node \<longrightarrow> walked sf anc node \<longrightarrow> getProgram ls = Some p \<longrightarrow>
        getUnusedExports ts ls sf fs = Some (Inr (nodes, used)) \<longrightarrow>
        ((node, anc) \<in> set nodes
           \<longleftrightarrow> \<not> str_includes (getLeadingComment ts sf node) IGNORE_COMMENT
               \<and> (\<exists>refs. findReferences sf node ls = Inr (Some refs)
                    \<and> (isReexport node anc = Inr False
                          \<and> keptReferences (\<lambda>v. definition_fileName v \<noteq> fileName sf) refs = []
                        \<or> isReexport node anc = Inr True
                          \<and> (\<exists>ancestors.
                                getAncestorFiles (node, anc) refs fs p (fileName sf)
                                  = Some (Inr (Some ancestors))
                              \<and> keptReferences
                                   (\<lambda>v. definition_fileName v \<noteq> fileName sf
                                        \<and> definition_fileName v \<notin> ancestors) refs = [])))))
   \<and> (groupedByFile groupedRefs \<longrightarrow>
        keptReferences (\<lambda>v. definition_fileName v \<noteq> fileName sf) groupedRefs
          = filter (\<lambda>r. ref_fileName r \<noteq> fileName sf) (flatReferences groupedRefs)
        \<and> keptReferences (\<lambda>v. definition_fileName v \<noteq> fileName sf
                                \<and> definition_fileName v \<notin> ancestorFiles) groupedRefs
          = filter (\<lambda>r. ref_fileName r \<noteq> fileName sf \<and> ref_fileName r \<notin> ancestorFiles)
              (flatReferences groupedRefs))"
proof (intro conjI impI)
  assume a: "removeExport_isTarget ts sf node"
    "removeExport_findReferences sf node ls = Inr (Some allRefs)"
  show "getFirstUnusedExport_visit ts ls sf node None = Inr (Some node)
         \<longleftrightarrow> (length (flatReferences allRefs) = 1
              \<or> (kind node = ExportSpecifier \<and> length (flatReferences allRefs) = 2))"
  proof (cases "(kind node = ExportSpecifier \<and> length (flatReferences allRefs) = 2)
                \<or> length (flatReferences allRefs) = 1")
    case True
    then show ?thesis
      by (auto simp: getFirstUnusedExport_visit.simps a)
  next
    case False
    then have e: "getFirstUnusedExport_visit ts ls sf node None
      = getFirstUnusedExport_each ts ls sf (forEachChild node) None"
      by (auto simp: getFirstUnusedExport_visit.simps a)
    have "getFirstUnusedExport_each ts ls sf (forEachChild node) None \<noteq> Inr (Some node)"
    proof
      assume "getFirstUnusedExport_each ts ls sf (forEachChild node) None = Inr (Some node)"
      from getFirstUnusedExport_inside(2)[OF this] size_forEachChild[of node]
      show False by simp
    qed
    with e False show ?thesis by auto
  qed
next
  assume t: "isTarget node"
  show "visit ts ls fs p sf anc node st = Some (Inr (fst st @ [(node, anc)], snd st))
           \<longleftrightarrow> \<not> str_includes (getLeadingComment ts sf node) IGNORE_COMMENT
               \<and> (\<exists>refs. findReferences sf node ls = Inr (Some refs)
                    \<and> (isReexport node anc = Inr False
                          \<and> keptReferences (\<lambda>v. definition_fileName v \<noteq> fileName sf) refs = []
                        \<or> isReexport node anc = Inr True
                          \<and> (\<exists>ancestors.
                                getAncestorFiles (node, anc) refs fs p (fileName sf)
                                  = Some (Inr (Some ancestors))
                              \<and> keptReferences
                                   (\<lambda>v. definition_fileName v \<noteq> fileName sf
                                        \<and> definition_fileName v \<notin> ancestors) refs = [])))"
    by (rule visit_pushes_iff[OF t])
next
  assume t: "isTarget node" and w: "walked sf anc node" and p: "getProgram ls = Some p"
    and g: "getUnusedExports ts ls sf fs = Some (Inr (nodes, used))"
  from getUnusedExports_run[OF g] p have
    run: "visit_each ts ls fs p sf [root sf] (forEachChild (root sf)) ([], False)
            = Some (Inr (nodes, used))" by auto
  show "(node, anc) \<in> set nodes
           \<longleftrightarrow> \<not> str_includes (getLeadingComment ts sf node) IGNORE_COMMENT
               \<and> (\<exists>refs. findReferences sf node ls = Inr (Some refs)
                    \<and> (isReexport node anc = Inr False
                          \<and> keptReferences (\<lambda>v. definition_fileName v \<noteq> fileName sf) refs = []
                        \<or> isReexport node anc = Inr True
                          \<and> (\<exists>ancestors.
                                getAncestorFiles (node, anc) refs fs p (fileName sf)
                                  = Some (Inr (Some ancestors))
                              \<and> keptReferences
                                   (\<lambda>v. definition_fileName v \<noteq> fileName sf
                                        \<and> definition_fileName v \<notin> ancestors) refs = [])))"
    unfolding walk_pushes[OF run w t]
    using visit_pushes_iff[OF t, of ts ls fs p sf anc "([], False)"] by simp
next
  assume g: "groupedByFile groupedRefs"
  show "keptReferences (\<lambda>v. definition_fileName v \<noteq> fileName sf) groupedRefs
          = filter (\<lambda>r. ref_fileName r \<noteq> fileName sf) (flatReferences groupedRefs)"
    by (rule kept_grouped(1)[OF g])
next
  assume g: "groupedByFile groupedRefs"
  show "keptReferences (\<lambda>v. definition_fileName v \<noteq> fileName sf
                                \<and> definition_fileName v \<notin> ancestorFiles) groupedRefs
          = filter (\<lambda>r. ref_fileName r \<noteq> fileName sf \<and> ref_fileName r \<notin> ancestorFiles)
              (flatReferences groupedRefs)"
    by (rule kept_grouped(2)[OF g])
qed

theorem unused_by_count_or_by_definition_file_witness:
  "removeExport_isTarget plain_ts vars_ts vars_stmt
   \<and> removeExport_findReferences vars_ts vars_stmt vars_service = Inr (Some vars_a_refs)
   \<and> length (flatReferences vars_a_refs) = 1
   \<and> getFirstUnusedExport_visit plain_ts vars_service vars_ts vars_stmt None
       = Inr (Some vars_stmt)
   \<and> removeExport_isTarget plain_ts util_ts helper_decl
   \<and> removeExport_findReferences util_ts helper_decl util_service = Inr (Some helper_refs)
   \<and> length (flatReferences helper_refs) = 2
   \<and> kind helper_decl = FunctionDeclaration
   \<and> getFirstUnusedExport_visit plain_ts util_service util_ts helper_decl None
       \<noteq> Inr (Some helper_decl)
   \<and> isTarget helper_decl \<and> isTarget shared_decl
   \<and> walked util_ts [util_root] helper_decl \<and> walked util_ts [util_root] shared_decl
   \<and> getProgram util_service = Some util_program
   \<and> getUnusedExports plain_ts util_service util_ts Map.empty
       = Some (Inr ([(helper_decl, [util_root])], True))
   \<and> findReferences util_ts helper_decl util_service = Inr (Some helper_refs)
   \<and> isReexport helper_decl [util_root] = Inr False
   \<and> keptReferences (\<lambda>v. definition_fileName v \<noteq> fileName util_ts) helper_refs = []
   \<and> (helper_decl, [util_root]) \<in> set [(helper_decl, [util_root])]
   \<and> findReferences util_ts shared_decl util_service = Inr (Some shared_refs)
   \<and> length (keptReferences (\<lambda>v. definition_fileName v \<noteq> fileName util_ts) shared_refs) = 2
   \<and> (shared_decl, [util_root]) \<notin> set [(helper_decl, [util_root])]
   \<and> groupedByFile shared_refs
   \<and> length (filter (\<lambda>r. ref_fileName r \<noteq> fileName util_ts) (flatReferences shared_refs)) = 2
   \<and> isTarget (abc_spec ''b'' 12)
   \<and> findReferences (abc_file ''abc.ts'' abc_specs abc_text) (abc_spec ''b'' 12)
        (abc_service (abc_file ''abc.ts'' abc_specs abc_text) [9, 15])
       = Inr (Some (abc_refs [9, 15] 12))
   \<and> isReexport (abc_spec ''b'' 12)
        [abc_named abc_specs 19, abc_decl abc_specs 19, abc_root abc_specs 19] = Inr False
   \<and> keptReferences (\<lambda>v. definition_fileName v
                             \<noteq> fileName (abc_file ''abc.ts'' abc_specs abc_text))
        (abc_refs [9, 15] 12) = []
   \<and> visit abc_tools (abc_service (abc_file ''abc.ts'' abc_specs abc_text) [9, 15]) Map.empty
        (abc_program (abc_file ''abc.ts'' abc_specs abc_text))
        (abc_file ''abc.ts'' abc_specs abc_text)
        [abc_named abc_specs 19, abc_decl abc_specs 19, abc_root abc_specs 19]
        (abc_spec ''b'' 12) ([], False)
       = Some (Inr ([(abc_spec ''b'' 12,
                      [abc_named abc_specs 19, abc_decl abc_specs 19, abc_root abc_specs 19])],
                    False))
   \<and> isTarget miss_spec
   \<and> findReferences miss_ts miss_spec fwd_service = Inr (Some fwd_refs)
   \<and> length (flatReferences fwd_refs) = 2
   \<and> isReexport miss_spec [miss_named, miss_decl, miss_root] = Inr True
   \<and> getAncestorFiles (miss_spec, [miss_named, miss_decl, miss_root]) fwd_refs Map.empty
        fwd_program (fileName miss_ts) = Some (Inr (Some {''m.ts''}))
   \<and> keptReferences (\<lambda>v. definition_fileName v \<noteq> fileName miss_ts
                           \<and> definition_fileName v \<notin> {''m.ts''}) fwd_refs = []
   \<and> visit plain_ts fwd_service Map.empty fwd_program miss_ts
        [miss_named, miss_decl, miss_root] miss_spec ([], False)
       = Some (Inr ([(miss_spec, [miss_named, miss_decl, miss_root])], False))"
proof -
  have t1: "removeExport_isTarget plain_ts vars_ts vars_stmt"
    by (simp add: first_defs vars_defs)
  have f1: "removeExport_findReferences vars_ts vars_stmt vars_service = Inr (Some vars_a_refs)"
    by (simp add: first_defs vars_defs)
  have c1: "length (flatReferences vars_a_refs) = 1"
    by (simp add: flatReferences_def vars_a_refs_def)
  have t2: "removeExport_isTarget plain_ts util_ts helper_decl"
    by (simp add: first_defs util_defs)
  have f2: "removeExport_findReferences util_ts helper_decl util_service = Inr (Some helper_refs)"
    by (simp add: first_defs util_defs)
  have c2: "length (flatReferences helper_refs) = 2"
    by (simp add: flatReferences_def helper_refs_def)
  have k2: "kind helper_decl = FunctionDeclaration"
    by (simp add: helper_decl_def nd_def)
  from unused_by_count_or_by_definition_file[THEN conjunct1, rule_format, OF t1 f1] c1
  have r1: "getFirstUnusedExport_visit plain_ts vars_service vars_ts vars_stmt None
       = Inr (Some vars_stmt)" by simp
  from unused_by_count_or_by_definition_file[THEN conjunct1, rule_format, OF t2 f2] c2 k2
  have r2: "getFirstUnusedExport_visit plain_ts util_service util_ts helper_decl None
       \<noteq> Inr (Some helper_decl)" by simp
  have run: "getUnusedExports plain_ts util_service util_ts Map.empty
     = Some (Inr ([(helper_decl, [util_root])], True))"
    by (rule util_unused)
  have p: "getProgram util_service = Some util_program" by (simp add: util_service_def)
  have w1: "walked util_ts [util_root] helper_decl"
    using walked.top[of helper_decl util_ts] by (simp add: util_ts_def util_root_def nd_def)
  have w2: "walked util_ts [util_root] shared_decl"
    using walked.top[of shared_decl util_ts] by (simp add: util_ts_def util_root_def nd_def)
  have i1: "isTarget helper_decl" by (simp add: eval_defs util_defs)
  have i2: "isTarget shared_decl" by (simp add: eval_defs util_defs)
  have s1: "\<not> str_includes (getLeadingComment plain_ts util_ts helper_decl) IGNORE_COMMENT"
    by (simp add: eval_defs util_defs)
  have g1: "findReferences util_ts helper_decl util_service = Inr (Some helper_refs)"
    by (simp add: findReferences_def util_ts_def helper_decl_def nd_def util_service_def)
  have g2: "findReferences util_ts shared_decl util_service = Inr (Some shared_refs)"
    by (simp add: findReferences_def util_ts_def shared_decl_def nd_def util_service_def)
  have x1: "isReexport helper_decl [util_root] = Inr False"
    by (simp add: isReexport_def helper_decl_def nd_def)
  have x2: "isReexport shared_decl [util_root] = Inr False"
    by (simp add: isReexport_def shared_decl_def nd_def)
  have e1: "keptReferences (\<lambda>v. definition_fileName v \<noteq> fileName util_ts) helper_refs = []"
    by (simp add: keptReferences_def flatReferences_def helper_refs_def util_ts_def)
  have e2: "length (keptReferences (\<lambda>v. definition_fileName v \<noteq> fileName util_ts) shared_refs) = 2"
    by (simp add: keptReferences_def flatReferences_def shared_refs_def util_ts_def)
  from e2 have e2': "keptReferences (\<lambda>v. definition_fileName v \<noteq> fileName util_ts) shared_refs \<noteq> []"
    by auto
  from unused_by_count_or_by_definition_file[THEN conjunct2, THEN conjunct2, THEN conjunct1,
        rule_format, OF i1 w1 p run] s1 g1 x1 e1
  have m1: "(helper_decl, [util_root]) \<in> set [(helper_decl, [util_root])]" by simp
  from unused_by_count_or_by_definition_file[THEN conjunct2, THEN conjunct2, THEN conjunct1,
        rule_format, OF i2 w2 p run] g2 x2 e2'
  have m2: "(shared_decl, [util_root]) \<notin> set [(helper_decl, [util_root])]" by simp
  have y2: "groupedByFile shared_refs" by (simp add: groupedByFile_def shared_refs_def)
  from unused_by_count_or_by_definition_file[THEN conjunct2, THEN conjunct2, THEN conjunct2,
        rule_format, OF y2, THEN conjunct1, of util_ts] e2
  have z2: "length (filter (\<lambda>r. ref_fileName r \<noteq> fileName util_ts)
                      (flatReferences shared_refs)) = 2" by simp
  let ?abc = "abc_file ''abc.ts'' abc_specs abc_text"
  let ?anc = "[abc_named abc_specs 19, abc_decl abc_specs 19, abc_root abc_specs 19]"
  have i4: "isTarget (abc_spec ''b'' 12)" by (simp add: isTarget_def abc_spec_def)
  have s4: "\<not> str_includes (getLeadingComment abc_tools ?abc (abc_spec ''b'' 12)) IGNORE_COMMENT"
    by (simp add: eval_defs abc_defs)
  have g4: "findReferences ?abc (abc_spec ''b'' 12) (abc_service ?abc [9, 15])
       = Inr (Some (abc_refs [9, 15] 12))"
    by (simp add: findReferences_def abc_spec_def abc_service_def abc_file_def)
  have x4: "isReexport (abc_spec ''b'' 12) ?anc = Inr False"
    by (simp add: isReexport_def parentParent_def abc_spec_def abc_decl_def)
  have e4: "keptReferences (\<lambda>v. definition_fileName v \<noteq> fileName ?abc)
        (abc_refs [9, 15] 12) = []"
    by (simp add: keptReferences_def flatReferences_def abc_refs_def abc_file_def)
  from unused_by_count_or_by_definition_file[THEN conjunct2, THEN conjunct1, rule_format, OF i4,
        where ts = abc_tools and sf = ?abc and ls = "abc_service ?abc [9, 15]"
          and fs = Map.empty and p = "abc_program ?abc" and st = "([], False)"
          and anc = ?anc] s4 g4 x4 e4
  have v4: "visit abc_tools (abc_service ?abc [9, 15]) Map.empty (abc_program ?abc) ?abc ?anc
        (abc_spec ''b'' 12) ([], False)
       = Some (Inr ([(abc_spec ''b'' 12, ?anc)], False))" by simp
  have i3: "isTarget miss_spec" by (simp add: isTarget_def miss_spec_def nd_def)
  have s3: "\<not> str_includes (getLeadingComment plain_ts miss_ts miss_spec) IGNORE_COMMENT"
    by (simp add: eval_defs miss_defs)
  have g3: "findReferences miss_ts miss_spec fwd_service = Inr (Some fwd_refs)"
    by (simp add: eval_defs miss_defs fwd_service_def)
  have c3: "length (flatReferences fwd_refs) = 2"
    by (simp add: flatReferences_def fwd_refs_def)
  have x3: "isReexport miss_spec [miss_named, miss_decl, miss_root] = Inr True"
    by (simp add: isReexport_def parentParent_def miss_spec_def miss_decl_def nd_def)
  have fn: "fileName miss_ts = ''miss.ts''" by (simp add: miss_ts_def)
  have a3: "getAncestorFiles (miss_spec, [miss_named, miss_decl, miss_root]) fwd_refs Map.empty
        fwd_program (fileName miss_ts) = Some (Inr (Some {''m.ts''}))"
    using fwd_ancestors by (simp add: fn)
  have e3: "keptReferences (\<lambda>v. definition_fileName v \<noteq> fileName miss_ts
                           \<and> definition_fileName v \<notin> {''m.ts''}) fwd_refs = []"
    by (simp add: keptReferences_def flatReferences_def fwd_refs_def fn)
  from unused_by_count_or_by_definition_file[THEN conjunct2, THEN conjunct1, rule_format, OF i3,
        where ts = plain_ts and sf = miss_ts and ls = fwd_service and fs = Map.empty
          and p = fwd_program and st = "([], False)"
          and anc = "[miss_named, miss_decl, miss_root]"] s3 g3 x3 a3 e3
  have v3: "visit plain_ts fwd_service Map.empty fwd_program miss_ts
        [miss_named, miss_decl, miss_root] miss_spec ([], False)
       = Some (Inr ([(miss_spec, [miss_named, miss_decl, miss_root])], False))" by simp
  from t1 f1 c1 r1 t2 f2 c2 k2 r2 i1 i2 w1 w2 p run g1 x1 e1 m1 g2 e2 m2 y2 z2 i4 g4 x4 e4 v4
    i3 g3 c3 x3 a3 e3 v3
  show ?thesis by (intro conjI)
qed

text \<open>
  Claim C4 as stated fails on the code. In \<open>util.ts\<close> the function \<open>helper\<close> has
  two references, its declaration and a call in the same file, and
  \<open>getUnusedExports\<close> counts it unused; in \<open>reexp.ts\<close> the export specifier has one
  reference, not two, and \<open>getFirstUnusedExport\<close> returns it.
\<close>

theorem unused_despite_two_references_counterexample:
  "getUnusedExports plain_ts util_service util_ts Map.empty
     = Some (Inr ([(helper_decl, [util_root])], True))
   \<and> kind helper_decl = FunctionDeclaration
   \<and> findReferences util_ts helper_decl util_service = Inr (Some helper_refs)
   \<and> length (flatReferences helper_refs) = 2
   \<and> kind reexp_spec = ExportSpecifier
   \<and> removeExport_findReferences reexp_ts reexp_spec reexp_service = Inr (Some reexp_refs)
   \<and> length (flatReferences reexp_refs) = 1
   \<and> getFirstUnusedExport plain_ts reexp_ts reexp_service = Inr (Some reexp_spec)"
proof -
  have a: "findReferences util_ts helper_decl util_service = Inr (Some helper_refs)"
    by (simp add: eval_defs util_defs)
  have b: "length (flatReferences helper_refs) = 2"
    by (simp add: flatReferences_def helper_refs_def)
  have c: "kind helper_decl = FunctionDeclaration" "kind reexp_spec = ExportSpecifier"
    by (simp_all add: helper_decl_def reexp_spec_def nd_def)
  have d: "removeExport_findReferences reexp_ts reexp_spec reexp_service = Inr (Some reexp_refs)"
    by (simp add: first_defs reexp_defs)
  have e: "length (flatReferences reexp_refs) = 1"
    by (simp add: flatReferences_def reexp_refs_def)
  have f: "getFirstUnusedExport plain_ts reexp_ts reexp_service = Inr (Some reexp_spec)"
    by (simp add: first_defs reexp_defs)
  from util_unused[of Map.empty] a b c d e f show ?thesis by blast
qed

text \<open>
  Claim C2 at the empty module specifier. The file is \<open>export { x } from '';\<close> and
  nothing resolves. The loop of \<open>getAncestorFiles\<close> tests \<open>while (specifier)\<close>, the
  empty string is falsy, so the resolution is never tried and the result is the
  empty set, not null: the specifier is counted unused, and the edit removes the
  whole statement.
\<close>

theorem empty_module_specifier_is_removed:
  "isReexport reexp_spec [reexp_named, reexp_decl, reexp_root] = Inr True
   \<and> moduleSpecifier reexp_decl = Some reexp_from
   \<and> literalText reexp_from = []
   \<and> resolveModuleName reexp_program [] ''reexp.ts'' Map.empty = None
   \<and> getAncestorFiles (reexp_spec, [reexp_named, reexp_decl, reexp_root]) reexp_refs Map.empty
        reexp_program ''reexp.ts'' = Some (Inr (Some {}))
   \<and> getUnusedExports plain_ts reexp_service reexp_ts Map.empty
        = Some (Inr ([(reexp_spec, [reexp_named, reexp_decl, reexp_root])], False))
   \<and> getTextChanges plain_ts reexp_service ''reexp.ts'' [] Map.empty
        = Some ([TrackRemoveExport ''reexp.ts'' 0 reexp_text],
             Inr \<lparr>changes = [\<lparr>newText = [], span = \<lparr>span_start = 0, span_length = 21\<rparr>\<rparr>],
                  is_done = True, isUsed = False\<rparr>)
   \<and> applyTextChanges reexp_text
        [\<lparr>newText = [], span = \<lparr>span_start = 0, span_length = 21\<rparr>\<rparr>] = []"
proof -
  have a: "isReexport reexp_spec [reexp_named, reexp_decl, reexp_root] = Inr True"
    by (simp add: isReexport_def parentParent_def reexp_spec_def reexp_decl_def nd_def)
  have b: "moduleSpecifier reexp_decl = Some reexp_from" "literalText reexp_from = []"
    "resolveModuleName reexp_program [] ''reexp.ts'' Map.empty = None"
    by (simp_all add: reexp_decl_def reexp_from_def reexp_program_def)
  have c: "applyTextChanges reexp_text
        [\<lparr>newText = [], span = \<lparr>span_start = 0, span_length = 21\<rparr>\<rparr>] = []"
    by (simp add: edit_defs reexp_text_def)
  from a b c reexp_ancestors reexp_run reexp_changes show ?thesis by blast
qed

text \<open>
  Claim C3. When the file \<open>fl\<close> shows a wildcard re-export
  (\<open>export * from "..."\<close>, an export declaration without export clause) to the walk
  in every program the language service gives, a run of \<open>removeUnusedExport\<close> that
  returns, normally or by an exception, on any list of target files and with
  any flags, leaves \<open>fl\<close> in the file store if it was there and tells the tracker
  of no deletion of \<open>fl\<close>.
\<close>

theorem wildcard_file_never_deleted:
  assumes "alwaysWildcard languageService fl"
    and "removeUnusedExport ts languageService applyChanges applyCodeFix fileService targetFile
           deleteUnusedFile enableCodeFix log = Some (err, fileService', log')"
  shows "(fileService fl \<noteq> None \<longrightarrow> fileService' fl \<noteq> None)
       \<and> (\<exists>evs. log' = log @ evs \<and> TrackDelete fl \<notin> set evs)"
proof (cases "getProgram (languageService fileService)")
  case None
  with assms(2) show ?thesis by (simp add: removeUnusedExport_def)
next
  case (Some program)
  with assms(2) have
    "removeUnusedExport_each ts languageService applyChanges applyCodeFix deleteUnusedFile enableCodeFix
       program targetFile (fileService, log) = Some (err, fileService', log')"
    by (simp add: removeUnusedExport_def)
  from each_keeps[OF assms(1) this] show ?thesis .
qed

theorem wildcard_file_never_deleted_witness:
  "alwaysWildcard (\<lambda>fs. wild_service) ''barrel.ts''
   \<and> removeUnusedExport plain_ts (\<lambda>fs. wild_service) applyTextChanges no_fix
        [''barrel.ts'' \<mapsto> wild_text]
        [''barrel.ts''] True False []
      = Some (None, [''barrel.ts'' \<mapsto> wild_text],
              [TrackStart ''barrel.ts'' wild_text, TrackEnd ''barrel.ts''])
   \<and> [''barrel.ts'' \<mapsto> wild_text] ''barrel.ts'' \<noteq> None
   \<and> TrackDelete ''barrel.ts'' \<notin> set [TrackStart ''barrel.ts'' wild_text, TrackEnd ''barrel.ts'']"
proof -
  have "walked wild_ts [wild_root] wild_decl"
    using walked.top[of wild_decl wild_ts] by (simp add: wild_ts_def wild_root_def nd_def)
  moreover have "kind wild_decl = ExportDeclaration" "exportClause wild_decl = None"
    by (simp_all add: wild_decl_def)
  ultimately have h: "hasWildcard wild_ts" unfolding hasWildcard_def by blast
  have aw: "alwaysWildcard (\<lambda>fs. wild_service) ''barrel.ts''"
    unfolding alwaysWildcard_def using h
    by (auto simp: wild_service_def wild_program_def)
  from wildcard_file_never_deleted[OF aw wild_driver] obtain evs where
    "[''barrel.ts'' \<mapsto> wild_text] ''barrel.ts'' \<noteq> None"
    "[TrackStart ''barrel.ts'' wild_text, TrackEnd ''barrel.ts''] = [] @ evs"
    "TrackDelete ''barrel.ts'' \<notin> set evs" by auto
  with aw wild_driver show ?thesis by simp
qed

text \<open>
  Claim C8, as amended. On a target file that is in the project and in the file
  store and whose scan finds no unused candidate, a run of \<open>removeUnusedExport\<close>
  with the secondary fix disabled makes one pass, whose list of changes is
  empty, and tells the tracker of the start of the session and of no removal.
  When file deletion is not requested or the scan flags the file used, the
  session is ended and the store holds for the file the result of
  \<open>applyTextChanges\<close> on its content and the empty list of changes, every other
  file being as it was: the store is as it was whenever \<open>applyTextChanges\<close>
  returns its input for no change. When file deletion is requested and the scan
  does not flag the file used, the file is deleted from the store and the
  tracker is told of the deletion in place of the end.
\<close>

theorem stabilized_run_makes_no_removal:
  assumes "getProgram (languageService fileService) = Some program"
    and "getSourceFile program fl = Some sourceFile"
    and "fileService fl = Some content"
    and "getUnusedExports ts (languageService fileService) sourceFile fileService
           = Some (Inr ([], used))"
  shows "getTextChanges ts (languageService fileService) fl log fileService
           = Some (log, Inr \<lparr>changes = [], is_done = True, isUsed = used\<rparr>)
       \<and> removeUnusedExport ts languageService applyChanges applyCodeFix fileService [fl]
           deleteUnusedFile False log
         = Some (None,
                 (if \<not> used \<and> deleteUnusedFile then fs_delete fileService fl
                  else fs_set fileService fl (applyChanges content [])),
                 log @ [TrackStart fl (getFullText sourceFile),
                        if \<not> used \<and> deleteUnusedFile then TrackDelete fl else TrackEnd fl])
       \<and> (applyChanges content [] = content
            \<longrightarrow> fs_set fileService fl (applyChanges content []) = fileService)"
proof -
  have g: "getTextChanges ts (languageService fileService) fl l fileService
             = Some (l, Inr \<lparr>changes = [], is_done = True, isUsed = used\<rparr>)" for l
    by (simp add: getTextChanges_def assms(1,2,4))
  from assms(3) have c: "fs_get fileService fl = content"
    by (simp add: fs_get_def)
  have d: "removeUnusedExport_doWhile ts languageService applyChanges fl content fileService l
             = Some (None, used, applyChanges content [],
                     fs_set fileService fl (applyChanges content []), l)" for l
    by (subst removeUnusedExport_doWhile.simps) (simp add: g)
  have e: "fs_delete (fs_set fileService fl x) fl = fs_delete fileService fl"
    "fs_set (fs_set fileService fl x) fl x = fs_set fileService fl x" for x
    by (simp_all add: fs_delete_def fs_set_def)
  have r: "removeUnusedExport ts languageService applyChanges applyCodeFix fileService [fl]
           deleteUnusedFile False log
         = Some (None,
                 (if \<not> used \<and> deleteUnusedFile then fs_delete fileService fl
                  else fs_set fileService fl (applyChanges content [])),
                 log @ [TrackStart fl (getFullText sourceFile),
                        if \<not> used \<and> deleteUnusedFile then TrackDelete fl else TrackEnd fl])"
    by (simp add: removeUnusedExport_def removeUnusedExport_file_def assms(1,2) c d e)
  from assms(3) have i: "fs_set fileService fl content = fileService"
    by (auto simp: fs_set_def)
  from g[of log] r i show ?thesis by simp
qed

theorem stabilized_run_makes_no_removal_witness:
  "getProgram local_service = Some local_program
   \<and> getSourceFile local_program ''local.ts'' = Some local_ts
   \<and> [''local.ts'' \<mapsto> local_text] ''local.ts'' = Some local_text
   \<and> getUnusedExports plain_ts local_service local_ts [''local.ts'' \<mapsto> local_text]
        = Some (Inr ([], False))
   \<and> getTextChanges plain_ts local_service ''local.ts'' [] [''local.ts'' \<mapsto> local_text]
        = Some ([], Inr \<lparr>changes = [], is_done = True, isUsed = False\<rparr>)
   \<and> applyTextChanges local_text [] = local_text
   \<and> removeUnusedExport plain_ts (\<lambda>fs. local_service) applyTextChanges no_fix
        [''local.ts'' \<mapsto> local_text] [''local.ts''] False False []
      = Some (None, [''local.ts'' \<mapsto> local_text],
              [TrackStart ''local.ts'' local_text, TrackEnd ''local.ts''])
   \<and> removeUnusedExport plain_ts (\<lambda>fs. local_service) applyTextChanges no_fix
        [''local.ts'' \<mapsto> local_text] [''local.ts''] True False []
      = Some (None, Map.empty,
              [TrackStart ''local.ts'' local_text, TrackDelete ''local.ts''])
   \<and> getProgram wild_service = Some wild_program
   \<and> getSourceFile wild_program ''barrel.ts'' = Some wild_ts
   \<and> getUnusedExports plain_ts wild_service wild_ts [''barrel.ts'' \<mapsto> wild_text]
        = Some (Inr ([], True))
   \<and> removeUnusedExport plain_ts (\<lambda>fs. wild_service) applyTextChanges no_fix
        [''barrel.ts'' \<mapsto> wild_text] [''barrel.ts''] True False []
      = Some (None, [''barrel.ts'' \<mapsto> wild_text],
              [TrackStart ''barrel.ts'' wild_text, TrackEnd ''barrel.ts''])"
proof -
  have s: "[''local.ts'' \<mapsto> local_text] ''local.ts'' = Some local_text"
    "[''barrel.ts'' \<mapsto> wild_text] ''barrel.ts'' = Some wild_text" by simp_all
  note keep = stabilized_run_makes_no_removal[where languageService = "\<lambda>fs. local_service"
        and fileService = "[''local.ts'' \<mapsto> local_text]" and fl = "''local.ts''"
        and deleteUnusedFile = False and used = False and applyCodeFix = no_fix
        and applyChanges = applyTextChanges and log = "[]" and ts = plain_ts
        and program = local_program and sourceFile = local_ts and content = local_text,
        OF local_facts(1,2) s(1) local_run]
  note delete = stabilized_run_makes_no_removal[where languageService = "\<lambda>fs. local_service"
        and fileService = "[''local.ts'' \<mapsto> local_text]" and fl = "''local.ts''"
        and deleteUnusedFile = True and used = False and applyCodeFix = no_fix
        and applyChanges = applyTextChanges and log = "[]" and ts = plain_ts
        and program = local_program and sourceFile = local_ts and content = local_text,
        OF local_facts(1,2) s(1) local_run]
  note barrel = stabilized_run_makes_no_removal[where languageService = "\<lambda>fs. wild_service"
        and fileService = "[''barrel.ts'' \<mapsto> wild_text]" and fl = "''barrel.ts''"
        and deleteUnusedFile = True and used = True and applyCodeFix = no_fix
        and applyChanges = applyTextChanges and log = "[]" and ts = plain_ts
        and program = wild_program and sourceFile = wild_ts and content = wild_text,
        OF wild_facts(1,2) s(2) wild_run]
  have a: "applyTextChanges local_text [] = local_text"
    "applyTextChanges wild_text [] = wild_text" by simp_all
  from keep a(1) have k: "removeUnusedExport plain_ts (\<lambda>fs. local_service) applyTextChanges no_fix
        [''local.ts'' \<mapsto> local_text] [''local.ts''] False False []
      = Some (None, [''local.ts'' \<mapsto> local_text],
              [TrackStart ''local.ts'' local_text, TrackEnd ''local.ts''])"
    by (simp add: local_facts(3))
  from delete have d: "removeUnusedExport plain_ts (\<lambda>fs. local_service) applyTextChanges no_fix
        [''local.ts'' \<mapsto> local_text] [''local.ts''] True False []
      = Some (None, Map.empty,
              [TrackStart ''local.ts'' local_text, TrackDelete ''local.ts''])"
    by (simp add: local_facts(3) fs_delete_def)
  from barrel a(2) have b: "removeUnusedExport plain_ts (\<lambda>fs. wild_service) applyTextChanges no_fix
        [''barrel.ts'' \<mapsto> wild_text] [''barrel.ts''] True False []
      = Some (None, [''barrel.ts'' \<mapsto> wild_text],
              [TrackStart ''barrel.ts'' wild_text, TrackEnd ''barrel.ts''])"
    by (simp add: wild_facts(3))
  from keep have t: "getTextChanges plain_ts local_service ''local.ts'' []
        [''local.ts'' \<mapsto> local_text]
        = Some ([], Inr \<lparr>changes = [], is_done = True, isUsed = False\<rparr>)" by simp
  from local_facts(1,2) s(1) local_run[of "[''local.ts'' \<mapsto> local_text]"] t a(1) k d
    wild_facts(1,2) wild_run[of "[''barrel.ts'' \<mapsto> wild_text]"] b
  show ?thesis by simp
qed

text \<open>
  Claim C8 as stated fails on the code. The file \<open>local.ts\<close> has no export: the
  scan finds no unused candidate and does not flag the file used. With file
  deletion requested the run deletes the file from the store.
\<close>

theorem stabilized_file_deleted_counterexample:
  "getUnusedExports plain_ts local_service local_ts [''local.ts'' \<mapsto> local_text]
        = Some (Inr ([], False))
   \<and> [''local.ts'' \<mapsto> local_text] ''local.ts'' = Some local_text
   \<and> removeUnusedExport plain_ts (\<lambda>fs. local_service) applyTextChanges no_fix
        [''local.ts'' \<mapsto> local_text]
        [''local.ts''] True False []
      = Some (None, Map.empty,
              [TrackStart ''local.ts'' local_text, TrackDelete ''local.ts''])
   \<and> (Map.empty :: FileService) ''local.ts'' = None"
  using local_run[of "[''local.ts'' \<mapsto> local_text]"] local_driver_delete by simp

text \<open>
  Claim C9, as amended. For every list of target files, the events a run of
  \<open>removeUnusedExport\<close> that throws nothing adds to the log of the tracker are
  the sessions of the target files that are in the program fetched at the start,
  one after the other in the order of the list (\<open>sessions\<close>): each is the
  start of the session with the text of the file in that program, then removals
  and nothing else, then exactly one closing event, the deletion of the file
  (only where file deletion is requested; no end of session is told then) or the
  end of the session. When no file is listed twice, the session of a file closes
  with the deletion exactly when the file is not in the store after the run, and
  with the end exactly when it is. When the run throws, the sessions before the
  file at which it throws are complete, and the session of that file is its start
  and removals, without a closing event.
\<close>

theorem tracker_sessions_of_a_run:
  assumes "getProgram (languageService fileService) = Some program"
    and "removeUnusedExport ts languageService applyChanges applyCodeFix fileService targetFile
           deleteUnusedFile enableCodeFix log = Some (err, fileService', log')"
  shows "(err = None \<longrightarrow>
            (\<exists>evs. log' = log @ evs
               \<and> sessions program deleteUnusedFile targetFile evs
               \<and> (distinct targetFile \<longrightarrow>
                    (\<forall>fl \<in> set targetFile. getSourceFile program fl \<noteq> None \<longrightarrow>
                        (TrackDelete fl \<in> set evs \<longleftrightarrow> fileService' fl = None)
                      \<and> (TrackEnd fl \<in> set evs \<longleftrightarrow> fileService' fl \<noteq> None)))))
       \<and> (\<forall>e. err = Some e \<longrightarrow>
            (\<exists>pre fl sourceFile post evs removals.
                 targetFile = pre @ fl # post
               \<and> getSourceFile program fl = Some sourceFile
               \<and> sessions program deleteUnusedFile pre evs
               \<and> list_all isRemoveExport removals
               \<and> log' = log @ evs @ TrackStart fl (getFullText sourceFile) # removals))"
proof -
  from assms have run:
    "removeUnusedExport_each ts languageService applyChanges applyCodeFix deleteUnusedFile
       enableCodeFix program targetFile (fileService, log) = Some (err, fileService', log')"
    by (simp add: removeUnusedExport_def)
  have a: "\<exists>evs. log' = log @ evs
               \<and> sessions program deleteUnusedFile targetFile evs
               \<and> (distinct targetFile \<longrightarrow>
                    (\<forall>fl \<in> set targetFile. getSourceFile program fl \<noteq> None \<longrightarrow>
                        (TrackDelete fl \<in> set evs \<longleftrightarrow> fileService' fl = None)
                      \<and> (TrackEnd fl \<in> set evs \<longleftrightarrow> fileService' fl \<noteq> None)))"
    if n: "err = None"
  proof -
    from each_complete[OF run[unfolded n]] obtain evs where
      e: "log' = log @ evs" "sessions program deleteUnusedFile targetFile evs" by blast
    have "\<forall>fl \<in> set targetFile. getSourceFile program fl \<noteq> None \<longrightarrow>
                        (TrackDelete fl \<in> set evs \<longleftrightarrow> fileService' fl = None)
                      \<and> (TrackEnd fl \<in> set evs \<longleftrightarrow> fileService' fl \<noteq> None)"
      if "distinct targetFile"
    proof -
      from each_store[OF run[unfolded n] that] obtain evs2 where
        e2: "log' = log @ evs2"
        and st: "\<forall>g. if g \<in> set targetFile \<and> getSourceFile program g \<noteq> None
                 then (TrackDelete g \<in> set evs2 \<longleftrightarrow> fileService' g = None)
                    \<and> (TrackEnd g \<in> set evs2 \<longleftrightarrow> fileService' g \<noteq> None)
                 else fileService' g = fileService g \<and> TrackDelete g \<notin> set evs2
                    \<and> TrackEnd g \<notin> set evs2" by blast
      from e(1) e2 have eq: "evs2 = evs" by simp
      show ?thesis
      proof (intro ballI impI)
        fix fl
        assume "fl \<in> set targetFile" "getSourceFile program fl \<noteq> None"
        with st[rule_format, of fl] eq
        show "(TrackDelete fl \<in> set evs \<longleftrightarrow> fileService' fl = None)
            \<and> (TrackEnd fl \<in> set evs \<longleftrightarrow> fileService' fl \<noteq> None)" by simp
      qed
    qed
    with e show ?thesis by (intro exI[of _ evs]) simp
  qed
  have b: "\<exists>pre fl sourceFile post evs removals.
                 targetFile = pre @ fl # post
               \<and> getSourceFile program fl = Some sourceFile
               \<and> sessions program deleteUnusedFile pre evs
               \<and> list_all isRemoveExport removals
               \<and> log' = log @ evs @ TrackStart fl (getFullText sourceFile) # removals"
    if "err = Some e" for e
    using each_thrown[OF run[unfolded that]] .
  show ?thesis
  proof (intro conjI impI allI)
    assume "err = None"
    then show "\<exists>evs. log' = log @ evs
               \<and> sessions program deleteUnusedFile targetFile evs
               \<and> (distinct targetFile \<longrightarrow>
                    (\<forall>fl \<in> set targetFile. getSourceFile program fl \<noteq> None \<longrightarrow>
                        (TrackDelete fl \<in> set evs \<longleftrightarrow> fileService' fl = None)
                      \<and> (TrackEnd fl \<in> set evs \<longleftrightarrow> fileService' fl \<noteq> None)))"
      by (rule a)
  next
    fix e
    assume "err = Some e"
    then show "\<exists>pre fl sourceFile post evs removals.
                 targetFile = pre @ fl # post
               \<and> getSourceFile program fl = Some sourceFile
               \<and> sessions program deleteUnusedFile pre evs
               \<and> list_all isRemoveExport removals
               \<and> log' = log @ evs @ TrackStart fl (getFullText sourceFile) # removals"
      by (rule b)
  qed
qed

theorem tracker_sessions_of_a_run_witness:
  "getProgram proj_service = Some proj_program
   \<and> removeUnusedExport plain_ts (\<lambda>fs. proj_service) applyTextChanges no_fix proj_store
        [''vars.ts'', ''gone.ts'', ''barrel.ts''] True False []
      = Some (None, [''barrel.ts'' \<mapsto> wild_text],
              [] @ [TrackStart ''vars.ts'' vars_text, TrackRemoveExport ''vars.ts'' 0 ''a'',
                    TrackDelete ''vars.ts'',
                    TrackStart ''barrel.ts'' wild_text, TrackEnd ''barrel.ts''])
   \<and> sessions proj_program True [''vars.ts'', ''gone.ts'', ''barrel.ts'']
        [TrackStart ''vars.ts'' vars_text, TrackRemoveExport ''vars.ts'' 0 ''a'',
         TrackDelete ''vars.ts'',
         TrackStart ''barrel.ts'' wild_text, TrackEnd ''barrel.ts'']
   \<and> distinct [''vars.ts'', ''gone.ts'', ''barrel.ts'']
   \<and> getSourceFile proj_program ''vars.ts'' = Some vars_ts
   \<and> [''barrel.ts'' \<mapsto> wild_text] ''vars.ts'' = None
   \<and> getSourceFile proj_program ''barrel.ts'' = Some wild_ts
   \<and> [''barrel.ts'' \<mapsto> wild_text] ''barrel.ts'' = Some wild_text
   \<and> getSourceFile proj_program ''gone.ts'' = None
   \<and> getProgram (drop_host [''abc.ts'' \<mapsto> abc_text])
        = Some (abc_program (abc_file ''abc.ts'' abc_specs abc_text))
   \<and> removeUnusedExport abc_tools drop_host applyTextChanges no_fix
        [''abc.ts'' \<mapsto> abc_text]
        [''abc.ts''] False False []
      = Some (Some SourceFileNotFound, [''abc.ts'' \<mapsto> bc_text],
              [] @ [] @ TrackStart ''abc.ts'' abc_text
                 # [TrackRemoveExport ''abc.ts'' 9 ''export { a };''])
   \<and> list_all isRemoveExport [TrackRemoveExport ''abc.ts'' 9 ''export { a };'']"
proof -
  let ?evs = "[TrackStart ''vars.ts'' vars_text, TrackRemoveExport ''vars.ts'' 0 ''a'',
               TrackDelete ''vars.ts'',
               TrackStart ''barrel.ts'' wild_text, TrackEnd ''barrel.ts'']"
  let ?files = "[''vars.ts'', ''gone.ts'', ''barrel.ts'']"
  have run: "removeUnusedExport plain_ts (\<lambda>fs. proj_service) applyTextChanges no_fix proj_store
        ?files True False []
      = Some (None, [''barrel.ts'' \<mapsto> wild_text], ?evs)"
    by (rule proj_driver)
  have d: "distinct ?files" by simp
  note t1 = tracker_sessions_of_a_run[where languageService = "\<lambda>fs. proj_service",
        OF proj_facts(1) run, THEN conjunct1, rule_format, OF refl]
  from t1 have "\<exists>evs. ?evs = [] @ evs
               \<and> sessions proj_program True ?files evs
               \<and> (distinct ?files \<longrightarrow>
                    (\<forall>fl \<in> set ?files. getSourceFile proj_program fl \<noteq> None \<longrightarrow>
                        (TrackDelete fl \<in> set evs \<longleftrightarrow> [''barrel.ts'' \<mapsto> wild_text] fl = None)
                      \<and> (TrackEnd fl \<in> set evs \<longleftrightarrow> [''barrel.ts'' \<mapsto> wild_text] fl \<noteq> None)))"
    .
  then obtain evs where e: "?evs = [] @ evs"
    and s0: "sessions proj_program True ?files evs"
    and st0: "distinct ?files \<longrightarrow>
               (\<forall>fl \<in> set ?files. getSourceFile proj_program fl \<noteq> None \<longrightarrow>
                   (TrackDelete fl \<in> set evs \<longleftrightarrow> [''barrel.ts'' \<mapsto> wild_text] fl = None)
                 \<and> (TrackEnd fl \<in> set evs \<longleftrightarrow> [''barrel.ts'' \<mapsto> wild_text] fl \<noteq> None))"
    by (elim exE conjE)
  from e have eq: "evs = ?evs" by simp
  from s0 eq have s: "sessions proj_program True ?files ?evs" by simp
  from st0 d have st: "\<And>fl. fl \<in> set ?files \<Longrightarrow> getSourceFile proj_program fl \<noteq> None \<Longrightarrow>
                   (TrackDelete fl \<in> set evs \<longleftrightarrow> [''barrel.ts'' \<mapsto> wild_text] fl = None)
                 \<and> (TrackEnd fl \<in> set evs \<longleftrightarrow> [''barrel.ts'' \<mapsto> wild_text] fl \<noteq> None)"
    by blast
  from st[of "''vars.ts''"] proj_facts(2) eq
  have v: "[''barrel.ts'' \<mapsto> wild_text] ''vars.ts'' = None" by simp
  from st[of "''barrel.ts''"] proj_facts(3) eq
  have b: "[''barrel.ts'' \<mapsto> wild_text] ''barrel.ts'' \<noteq> None" by simp
  have p2: "getProgram (drop_host [''abc.ts'' \<mapsto> abc_text])
        = Some (abc_program (abc_file ''abc.ts'' abc_specs abc_text))"
    by (simp add: drop_host_def abc_service_def)
  note t2 = tracker_sessions_of_a_run[OF p2 drop_driver, THEN conjunct2, rule_format, OF refl]
  from t2 have "\<exists>pre fl (sourceFile :: SourceFile) post evs removals.
                 [''abc.ts''] = pre @ fl # post
               \<and> getSourceFile (abc_program (abc_file ''abc.ts'' abc_specs abc_text)) fl
                   = Some sourceFile
               \<and> sessions (abc_program (abc_file ''abc.ts'' abc_specs abc_text)) False pre evs
               \<and> list_all isRemoveExport removals
               \<and> [TrackStart ''abc.ts'' abc_text, TrackRemoveExport ''abc.ts'' 9 ''export { a };'']
                   = [] @ evs @ TrackStart fl (getFullText sourceFile) # removals"
    .
  then obtain pre fl and sourceFile :: SourceFile and post evs2 removals where
    t: "[''abc.ts''] = pre @ fl # post"
    "sessions (abc_program (abc_file ''abc.ts'' abc_specs abc_text)) False pre evs2"
    "list_all isRemoveExport removals"
    "[TrackStart ''abc.ts'' abc_text, TrackRemoveExport ''abc.ts'' 9 ''export { a };'']
       = [] @ evs2 @ TrackStart fl (getFullText sourceFile) # removals"
    by (elim exE conjE)
  from t(1) have "pre = []" by (cases pre) auto
  with t(2) have "evs2 = []" by simp
  with t(4) have "removals = [TrackRemoveExport ''abc.ts'' 9 ''export { a };'']" by auto
  with t(3) have r: "list_all isRemoveExport [TrackRemoveExport ''abc.ts'' 9 ''export { a };'']"
    by simp
  from run s eq d v b proj_facts drop_driver p2 r show ?thesis by simp
qed

text \<open>
  Claim C9 as stated fails on the code. With file deletion requested, the run on
  \<open>vars.ts\<close> tells the tracker of the start, of one removal and of the deletion,
  and of no end of session: the deletion is not between a start and an end, it
  takes the place of the end.
\<close>

theorem deleted_file_session_not_ended_counterexample:
  "getProgram vars_service = Some vars_program
   \<and> getSourceFile vars_program ''vars.ts'' = Some vars_ts
   \<and> removeUnusedExport plain_ts (\<lambda>fs. vars_service) applyTextChanges no_fix
        [''vars.ts'' \<mapsto> vars_text]
        [''vars.ts''] True False []
      = Some (None, Map.empty,
              [TrackStart ''vars.ts'' vars_text, TrackRemoveExport ''vars.ts'' 0 ''a'',
               TrackDelete ''vars.ts''])
   \<and> TrackEnd ''vars.ts''
        \<notin> set [TrackStart ''vars.ts'' vars_text, TrackRemoveExport ''vars.ts'' 0 ''a'',
                 TrackDelete ''vars.ts'']"
  using vars_driver_delete vars_facts(1,2) by simp

text \<open>
  Claim C5, as amended. In every batch the edits are those of the unused nodes
  up to and including the first export specifier that has siblings: at most one
  regeneration of an export clause is in the batch, it is the last edit of the
  batch, and the pass then reports that it is not done, so that the loop scans
  again. For the file \<open>export { a, b, c };\<close>: when only \<open>b\<close> is unused, one pass
  yields \<open>export { a, c };\<close>; when all three are unused, one pass removes \<open>a\<close>
  alone and yields \<open>export { b, c };\<close>, and the loop of \<open>removeUnusedExport\<close>
  removes the whole statement in three passes, telling the tracker of three
  removals.
\<close>

theorem one_regeneration_per_batch:
  "(\<forall>ts ls fl log fs log' result.
      getTextChanges ts ls fl log fs = Some (log', Inr result) \<longrightarrow>
      (\<exists>p sf nodes.
          getProgram ls = Some p \<and> getSourceFile p fl = Some sf
        \<and> getUnusedExports ts ls sf fs = Some (Inr (nodes, isUsed result))
        \<and> list_all2 (\<lambda>nr c. \<exists>ev a. getTextChanges_node ts sf nr = Inr (c, ev, a))
             (batch nodes) (changes result)
        \<and> length (filter isMultiSpecifier (batch nodes)) \<le> 1
        \<and> is_done result = (\<not> list_ex isMultiSpecifier nodes)))
   \<and> getTextChanges abc_tools (abc_service (abc_file ''abc.ts'' abc_specs abc_text) [9, 15])
        ''abc.ts'' [] Map.empty
      = Some ([TrackRemoveExport ''abc.ts'' 12 ''export { b };''],
              Inr \<lparr>changes = [\<lparr>newText = ''export { a, c };'',
                                span = \<lparr>span_start = 0, span_length = 19\<rparr>\<rparr>],
                   is_done = False, isUsed = True\<rparr>)
   \<and> applyTextChanges abc_text
        [\<lparr>newText = ''export { a, c };'', span = \<lparr>span_start = 0, span_length = 19\<rparr>\<rparr>]
      = ''export { a, c };''
   \<and> getTextChanges abc_tools (abc_service (abc_file ''abc.ts'' abc_specs abc_text) [])
        ''abc.ts'' [] Map.empty
      = Some ([TrackRemoveExport ''abc.ts'' 9 ''export { a };''],
              Inr \<lparr>changes = [\<lparr>newText = ''export { b, c };'',
                                span = \<lparr>span_start = 0, span_length = 19\<rparr>\<rparr>],
                   is_done = False, isUsed = False\<rparr>)
   \<and> removeUnusedExport abc_tools abc_host applyTextChanges no_fix
        [''abc.ts'' \<mapsto> abc_text] [''abc.ts'']
        False False []
      = Some (None, [''abc.ts'' \<mapsto> []],
              [TrackStart ''abc.ts'' abc_text,
               TrackRemoveExport ''abc.ts'' 9 ''export { a };'',
               TrackRemoveExport ''abc.ts'' 9 ''export { b };'',
               TrackRemoveExport ''abc.ts'' 0 ''export { c };'',
               TrackEnd ''abc.ts''])"
proof -
  have general: "\<exists>p sf nodes.
          getProgram ls = Some p \<and> getSourceFile p fl = Some sf
        \<and> getUnusedExports ts ls sf fs = Some (Inr (nodes, isUsed result))
        \<and> list_all2 (\<lambda>nr c. \<exists>ev a. getTextChanges_node ts sf nr = Inr (c, ev, a))
             (batch nodes) (changes result)
        \<and> length (filter isMultiSpecifier (batch nodes)) \<le> 1
        \<and> is_done result = (\<not> list_ex isMultiSpecifier nodes)"
    if g: "getTextChanges ts ls fl log fs = Some (log', Inr result)"
    for ts ls fl log fs log' result
  proof -
    from getTextChanges_Inr[OF g] obtain p sf nodes where
      a: "getProgram ls = Some p" "getSourceFile p fl = Some sf"
         "getUnusedExports ts ls sf fs = Some (Inr (nodes, isUsed result))"
      and l: "getTextChanges_loop ts sf nodes ([], False, log)
                = (None, changes result, \<not> is_done result, log')" by blast
    from getTextChanges_loop_batch[OF l] have
      "list_all2 (\<lambda>nr c. \<exists>ev a. getTextChanges_node ts sf nr = Inr (c, ev, a))
         (batch nodes) (changes result)"
      "(\<not> is_done result) = list_ex isMultiSpecifier nodes" by auto
    with a batch_one_multi[of nodes] show ?thesis by blast
  qed
  from general abc_b_changes[of "[]" Map.empty] abc_applied(1)
    abc_all_changes[of "[]" Map.empty] abc_driver
  show ?thesis by simp
qed

theorem one_regeneration_per_batch_witness:
  "getTextChanges abc_tools (abc_service (abc_file ''abc.ts'' abc_specs abc_text) [])
        ''abc.ts'' [] Map.empty
      = Some ([TrackRemoveExport ''abc.ts'' 9 ''export { a };''],
              Inr \<lparr>changes = [\<lparr>newText = ''export { b, c };'',
                                span = \<lparr>span_start = 0, span_length = 19\<rparr>\<rparr>],
                   is_done = False, isUsed = False\<rparr>)
   \<and> (\<exists>nodes. getUnusedExports abc_tools
                 (abc_service (abc_file ''abc.ts'' abc_specs abc_text) [])
                 (abc_file ''abc.ts'' abc_specs abc_text) Map.empty
               = Some (Inr (nodes, False))
             \<and> length (batch nodes) = 1
             \<and> list_ex isMultiSpecifier nodes)"
proof -
  let ?ls = "abc_service (abc_file ''abc.ts'' abc_specs abc_text) []"
  let ?r = "\<lparr>changes = [\<lparr>newText = ''export { b, c };'',
                          span = \<lparr>span_start = 0, span_length = 19\<rparr>\<rparr>],
             is_done = False, isUsed = False\<rparr>"
  have g: "getTextChanges abc_tools ?ls ''abc.ts'' [] Map.empty
      = Some ([TrackRemoveExport ''abc.ts'' 9 ''export { a };''], Inr ?r)"
    using abc_all_changes[of "[]" Map.empty] by simp
  from one_regeneration_per_batch have
    "\<forall>ts ls fl log fs log' result.
      getTextChanges ts ls fl log fs = Some (log', Inr result) \<longrightarrow>
      (\<exists>p sf nodes.
          getProgram ls = Some p \<and> getSourceFile p fl = Some sf
        \<and> getUnusedExports ts ls sf fs = Some (Inr (nodes, isUsed result))
        \<and> list_all2 (\<lambda>nr c. \<exists>ev a. getTextChanges_node ts sf nr = Inr (c, ev, a))
             (batch nodes) (changes result)
        \<and> length (filter isMultiSpecifier (batch nodes)) \<le> 1
        \<and> is_done result = (\<not> list_ex isMultiSpecifier nodes))" by blast
  from this[rule_format, OF g] obtain p sf nodes where
    a: "getProgram ?ls = Some p" "getSourceFile p ''abc.ts'' = Some sf"
       "getUnusedExports abc_tools ?ls sf Map.empty = Some (Inr (nodes, isUsed ?r))"
       "list_all2 (\<lambda>nr c. \<exists>ev a. getTextChanges_node abc_tools sf nr = Inr (c, ev, a))
             (batch nodes) (changes ?r)"
       "is_done ?r = (\<not> list_ex isMultiSpecifier nodes)" by blast
  from a(1,2) have sf: "sf = abc_file ''abc.ts'' abc_specs abc_text"
    by (auto simp: abc_service_def abc_program_def)
  from a(4) have "length (batch nodes) = 1" by (auto dest: list_all2_lengthD)
  moreover from a(5) have "list_ex isMultiSpecifier nodes" by simp
  ultimately show ?thesis using g a(3) sf by auto
qed

text \<open>
  Claim C5 as stated fails on the code. With \<open>a\<close>, \<open>b\<close> and \<open>c\<close> all unused, one
  pass over \<open>export { a, b, c };\<close> makes one edit, the regeneration without \<open>a\<close>;
  the text after the pass is \<open>export { b, c };\<close>, not the file without the
  statement.
\<close>

theorem one_pass_keeps_two_specifiers_counterexample:
  "getUnusedExports abc_tools (abc_service (abc_file ''abc.ts'' abc_specs abc_text) [])
     (abc_file ''abc.ts'' abc_specs abc_text) Map.empty
   = Some (Inr ([(abc_spec ''a'' 9,
                  [abc_named abc_specs 19, abc_decl abc_specs 19, abc_root abc_specs 19]),
                 (abc_spec ''b'' 12,
                  [abc_named abc_specs 19, abc_decl abc_specs 19, abc_root abc_specs 19]),
                 (abc_spec ''c'' 15,
                  [abc_named abc_specs 19, abc_decl abc_specs 19, abc_root abc_specs 19])],
                False))
   \<and> getTextChanges abc_tools (abc_service (abc_file ''abc.ts'' abc_specs abc_text) [])
        ''abc.ts'' [] Map.empty
      = Some ([TrackRemoveExport ''abc.ts'' 9 ''export { a };''],
              Inr \<lparr>changes = [\<lparr>newText = ''export { b, c };'',
                                span = \<lparr>span_start = 0, span_length = 19\<rparr>\<rparr>],
                   is_done = False, isUsed = False\<rparr>)
   \<and> applyTextChanges abc_text
        [\<lparr>newText = ''export { b, c };'', span = \<lparr>span_start = 0, span_length = 19\<rparr>\<rparr>]
      = ''export { b, c };''"
  using abc_all_run[of Map.empty] abc_all_changes[of "[]" Map.empty] abc_applied(2)
  by (simp add: bc_text_def)

text \<open>
  Claim C7 at a declaration that has another modifier. The file is
  \<open>export async function f() {}\<close> and \<open>f\<close> is unused. The edit spans from the
  start of the first syntax list of the declaration, the list of all its
  modifiers, to the start of the token after it: it removes \<open>export async \<close>, and
  the text left is \<open>function f() {}\<close>.
\<close>

theorem async_modifier_is_removed:
  "kind async_decl = FunctionDeclaration
   \<and> getText async_ts async_decl = ''export async function f() {}''
   \<and> getUnusedExports plain_ts async_service async_ts Map.empty
        = Some (Inr ([(async_decl, [async_root])], False))
   \<and> getTextChanges plain_ts async_service ''async.ts'' [] Map.empty
        = Some ([TrackRemoveExport ''async.ts'' 0 ''f''],
                Inr \<lparr>changes = [\<lparr>newText = [], span = \<lparr>span_start = 0, span_length = 13\<rparr>\<rparr>],
                     is_done = True, isUsed = False\<rparr>)
   \<and> slice async_text 0 13 = ''export async ''
   \<and> applyTextChanges async_text
        [\<lparr>newText = [], span = \<lparr>span_start = 0, span_length = 13\<rparr>\<rparr>] = ''function f() {}''"
proof -
  have a: "kind async_decl = FunctionDeclaration"
    "getText async_ts async_decl = ''export async function f() {}''"
    "slice async_text 0 13 = ''export async ''"
    "applyTextChanges async_text
        [\<lparr>newText = [], span = \<lparr>span_start = 0, span_length = 13\<rparr>\<rparr>] = ''function f() {}''"
    by (simp_all add: async_defs edit_defs slice_def)
  from a async_run[of Map.empty] async_changes[of "[]" Map.empty] show ?thesis by simp
qed

section \<open>Further properties\<close>

text \<open>
  A forwarding export specifier (\<open>export { x } from '...'\<close>) whose
  module specifier is a string literal that is not empty, and whose first hop
  fails (the specifier does not resolve to a file, the resolved file has no
  entry in the reference set, or no source file of it is in the program), has
  the ancestry null; its visit flags the file used and pushes nothing.
\<close>

theorem unresolved_reexport_is_used:
  assumes "kind node = ExportSpecifier"
    and "\<not> str_includes (getLeadingComment ts sf node) IGNORE_COMMENT"
    and "findReferences sf node ls = Inr (Some refs)"
    and "parentParent anc = Inr g"
    and "moduleSpecifier g = Some ms"
    and "isStringLiteral ms"
    and "literalText ms \<noteq> []"
    and "resolveModuleName p (literalText ms) (fileName sf) fs = None
         \<or> resolveModuleName p (literalText ms) (fileName sf) fs = Some []
         \<or> (\<exists>origin. resolveModuleName p (literalText ms) (fileName sf) fs = Some origin
               \<and> (referencesKeyValue refs origin = None \<or> getSourceFile p origin = None))"
  shows "getAncestorFiles (node, anc) refs fs p (fileName sf) = Some (Inr None)
       \<and> visit ts ls fs p sf anc node st = Some (Inr (fst st, True))"
proof -
  have t: "isTarget node" by (simp add: isTarget_def assms(1))
  have r: "isReexport node anc = Inr True" by (simp add: isReexport_def assms(1,4,5))
  have n: "getAncestorFiles (node, anc) refs fs p (fileName sf) = Some (Inr None)"
    by (rule getAncestorFiles_first_hop_fails[OF assms(4-8)])
  from visit_reexport[OF t assms(2,3) r n] n show ?thesis by simp
qed

theorem unresolved_reexport_is_used_witness:
  "kind miss_spec = ExportSpecifier
   \<and> findReferences miss_ts miss_spec miss_service = Inr (Some miss_refs)
   \<and> moduleSpecifier miss_decl = Some miss_from
   \<and> literalText miss_from = ''./m''
   \<and> resolveModuleName miss_program ''./m'' ''miss.ts'' Map.empty = None
   \<and> getAncestorFiles (miss_spec, [miss_named, miss_decl, miss_root]) miss_refs Map.empty
        miss_program ''miss.ts'' = Some (Inr None)
   \<and> visit plain_ts miss_service Map.empty miss_program miss_ts
        [miss_named, miss_decl, miss_root] miss_spec ([], False) = Some (Inr ([], True))
   \<and> getUnusedExports plain_ts miss_service miss_ts Map.empty = Some (Inr ([], True))"
proof -
  have k: "kind miss_spec = ExportSpecifier" by (simp add: miss_spec_def nd_def)
  have s: "\<not> str_includes (getLeadingComment plain_ts miss_ts miss_spec) IGNORE_COMMENT"
    by (simp add: eval_defs miss_defs)
  have f: "findReferences miss_ts miss_spec miss_service = Inr (Some miss_refs)"
    by (simp add: eval_defs miss_defs)
  have g: "parentParent [miss_named, miss_decl, miss_root] = Inr miss_decl"
    by (simp add: parentParent_def)
  have m: "moduleSpecifier miss_decl = Some miss_from" by (simp add: miss_decl_def)
  have l: "isStringLiteral miss_from" "literalText miss_from \<noteq> []"
    "literalText miss_from = ''./m''"
    by (simp_all add: isStringLiteral_def miss_from_def)
  have fn: "fileName miss_ts = ''miss.ts''" by (simp add: miss_ts_def)
  have r: "resolveModuleName miss_program ''./m'' ''miss.ts'' Map.empty = None"
    by (simp add: miss_program_def)
  then have d: "resolveModuleName miss_program (literalText miss_from) (fileName miss_ts)
                  Map.empty = None
     \<or> resolveModuleName miss_program (literalText miss_from) (fileName miss_ts)
          Map.empty = Some []
     \<or> (\<exists>origin. resolveModuleName miss_program (literalText miss_from) (fileName miss_ts)
                    Map.empty = Some origin
           \<and> (referencesKeyValue miss_refs origin = None
                \<or> getSourceFile miss_program origin = None))"
    by (simp add: l fn)
  from unresolved_reexport_is_used[OF k s f g m l(1,2) d, where st = "([], False)"] fn
  have "getAncestorFiles (miss_spec, [miss_named, miss_decl, miss_root]) miss_refs Map.empty
        miss_program ''miss.ts'' = Some (Inr None)
   \<and> visit plain_ts miss_service Map.empty miss_program miss_ts
        [miss_named, miss_decl, miss_root] miss_spec ([], False) = Some (Inr ([], True))"
    by simp
  with k f m l(3) r miss_run[of Map.empty] show ?thesis by simp
qed

text \<open>
  A forwarding export specifier the walk reaches, without skip
  comment, whose reference set and whose ancestry are returned, is among the
  unused nodes if and only if the ancestry is not null and no reference is left
  once the symbols defined in the file itself and in the files of the ancestry
  are filtered out; when it is not among them, the file is flagged used.
\<close>

theorem reexport_unused_iff_no_outside_reference:
  assumes "getUnusedExports ts ls sf fs = Some (Inr (nodes, used))"
    and "getProgram ls = Some p"
    and "walked sf anc node"
    and "isTarget node"
    and "\<not> str_includes (getLeadingComment ts sf node) IGNORE_COMMENT"
    and "findReferences sf node ls = Inr (Some refs)"
    and "isReexport node anc = Inr True"
    and "getAncestorFiles (node, anc) refs fs p (fileName sf) = Some (Inr a)"
  shows "((node, anc) \<in> set nodes
            \<longleftrightarrow> (\<exists>ancestors. a = Some ancestors
                 \<and> keptReferences (\<lambda>v. definition_fileName v \<noteq> fileName sf
                                      \<and> definition_fileName v \<notin> ancestors) refs = []))
       \<and> ((node, anc) \<notin> set nodes \<longrightarrow> used)"
proof -
  let ?unused = "\<exists>ancestors. a = Some ancestors
                 \<and> keptReferences (\<lambda>v. definition_fileName v \<noteq> fileName sf
                                      \<and> definition_fileName v \<notin> ancestors) refs = []"
  from getUnusedExports_run[OF assms(1)] assms(2) have
    run: "visit_each ts ls fs p sf [root sf] (forEachChild (root sf)) ([], False)
            = Some (Inr (nodes, used))" by auto
  from walked_visited[OF assms(3) run] obtain st1 st2 where
    v: "visit ts ls fs p sf anc node st1 = Some (Inr st2)"
    and s: "set (fst st2) \<subseteq> set nodes" "snd st2 \<longrightarrow> used" by auto
  note step = visit_reexport[OF assms(4-8)]
  have a: "(node, anc) \<in> set nodes" if "?unused"
    using v s that by (auto simp: step)
  have b: "used" if "\<not> ?unused"
    using v s that by (cases a) (auto simp: step)
  have c: "?unused" if "(node, anc) \<in> set nodes"
  proof (rule ccontr)
    assume n: "\<not> ?unused"
    from visit_origin(2)[OF run] that have "pushedAt ts ls fs p sf (node, anc)" by auto
    then obtain st0 where
      "visit ts ls fs p sf anc node st0 = Some (Inr (fst st0 @ [(node, anc)], snd st0))"
      by (auto simp: pushedAt_def)
    with n show False by (cases a) (auto simp: step)
  qed
  from a b c show ?thesis by blast
qed

theorem reexport_unused_iff_no_outside_reference_witness:
  "getUnusedExports plain_ts reexp_service reexp_ts Map.empty
     = Some (Inr ([(reexp_spec, [reexp_named, reexp_decl, reexp_root])], False))
   \<and> getProgram reexp_service = Some reexp_program
   \<and> walked reexp_ts [reexp_named, reexp_decl, reexp_root] reexp_spec
   \<and> isReexport reexp_spec [reexp_named, reexp_decl, reexp_root] = Inr True
   \<and> getAncestorFiles (reexp_spec, [reexp_named, reexp_decl, reexp_root]) reexp_refs
        Map.empty reexp_program (fileName reexp_ts) = Some (Inr (Some {}))
   \<and> keptReferences (\<lambda>v. definition_fileName v \<noteq> fileName reexp_ts
                           \<and> definition_fileName v \<notin> {}) reexp_refs = []
   \<and> (reexp_spec, [reexp_named, reexp_decl, reexp_root])
        \<in> set [(reexp_spec, [reexp_named, reexp_decl, reexp_root])]"
proof -
  have p: "getProgram reexp_service = Some reexp_program" by (simp add: reexp_service_def)
  have l: "\<not> isLeaf reexp_decl" "\<not> isLeaf reexp_named"
    by (simp_all add: isLeaf_def isTarget_def isDeclarationKind_def reexp_decl_def
        reexp_named_def)
  have "walked reexp_ts [reexp_root] reexp_decl"
    using walked.top[of reexp_decl reexp_ts] by (simp add: reexp_ts_def reexp_root_def nd_def)
  from walked.child[OF this l(1), of reexp_named]
  have "walked reexp_ts [reexp_decl, reexp_root] reexp_named" by (simp add: reexp_decl_def)
  from walked.child[OF this l(2), of reexp_spec]
  have w: "walked reexp_ts [reexp_named, reexp_decl, reexp_root] reexp_spec"
    by (simp add: reexp_named_def)
  have t: "isTarget reexp_spec" by (simp add: isTarget_def reexp_spec_def nd_def)
  have s: "\<not> str_includes (getLeadingComment plain_ts reexp_ts reexp_spec) IGNORE_COMMENT"
    by (simp add: eval_defs reexp_defs)
  have f: "findReferences reexp_ts reexp_spec reexp_service = Inr (Some reexp_refs)"
    by (simp add: eval_defs reexp_defs)
  have r: "isReexport reexp_spec [reexp_named, reexp_decl, reexp_root] = Inr True"
    by (simp add: isReexport_def parentParent_def reexp_spec_def reexp_decl_def nd_def)
  have fn: "fileName reexp_ts = ''reexp.ts''" by (simp add: reexp_ts_def)
  have a: "getAncestorFiles (reexp_spec, [reexp_named, reexp_decl, reexp_root]) reexp_refs
        Map.empty reexp_program (fileName reexp_ts) = Some (Inr (Some {}))"
    using reexp_ancestors by (simp add: fn)
  have k: "keptReferences (\<lambda>v. definition_fileName v \<noteq> fileName reexp_ts
                           \<and> definition_fileName v \<notin> {}) reexp_refs = []"
    by (simp add: keptReferences_def flatReferences_def reexp_refs_def fn)
  from reexport_unused_iff_no_outside_reference[OF reexp_run p w t s f r a] k
  have "(reexp_spec, [reexp_named, reexp_decl, reexp_root])
        \<in> set [(reexp_spec, [reexp_named, reexp_decl, reexp_root])]" by blast
  with reexp_run[simplified] p w r a k show ?thesis by (simp add: reexp_run)
qed

text \<open>
  For an unused declaration that is neither an export specifier
  nor an export assignment and that has an identifier among its children, the
  change has no new text and spans from the start of the first syntax list of
  the declaration to the start of the child after it; applied alone, it leaves
  every character before the span and every character after it as it was.
\<close>

theorem declaration_edit_frame:
  assumes "kind (fst nr) \<noteq> ExportSpecifier" "kind (fst nr) \<noteq> ExportAssignment"
    and "find (\<lambda>n. kind n = Identifier) (getChildren (fst nr)) \<noteq> None"
    and "getTextChanges_node ts sf nr = Inr (c, ev, ab)"
  shows "newText c = []
       \<and> (\<exists>i. findIndex (\<lambda>n. kind n = SyntaxList) (getChildren (fst nr)) = Some i
              \<and> span_start (span c) = getStart (getChildren (fst nr) ! i)
              \<and> span_length (span c)
                  = getStart (getChildren (fst nr) ! Suc i) - getStart (getChildren (fst nr) ! i))
       \<and> applyTextChanges content [c]
           = take (span_start (span c)) content
             @ drop (span_start (span c) + span_length (span c)) content"
proof -
  from declaration_change[OF assms] obtain i where
    "findIndex (\<lambda>n. kind n = SyntaxList) (getChildren (fst nr)) = Some i"
    "c = \<lparr>newText = [],
          span = \<lparr>span_start = getStart (getChildren (fst nr) ! i),
                  span_length = getStart (getChildren (fst nr) ! Suc i)
                                - getStart (getChildren (fst nr) ! i)\<rparr>\<rparr>" by blast
  then show ?thesis
    by (simp add: applyTextChanges_def applyTextChange_def)
qed

theorem declaration_edit_frame_witness:
  "kind helper_decl = FunctionDeclaration
   \<and> getTextChanges_node plain_ts util_ts (helper_decl, [util_root])
       = Inr (\<lparr>newText = [], span = \<lparr>span_start = 0, span_length = 7\<rparr>\<rparr>,
              TrackRemoveExport ''util.ts'' 0 ''helper'', False)
   \<and> findIndex (\<lambda>n. kind n = SyntaxList) (getChildren helper_decl) = Some 0
   \<and> applyTextChanges util_text [\<lparr>newText = [], span = \<lparr>span_start = 0, span_length = 7\<rparr>\<rparr>]
       = take 0 util_text @ drop 7 util_text"
proof -
  let ?c = "\<lparr>newText = [], span = \<lparr>span_start = 0, span_length = 7\<rparr>\<rparr>"
  have k: "kind (fst (helper_decl, [util_root])) \<noteq> ExportSpecifier"
    "kind (fst (helper_decl, [util_root])) \<noteq> ExportAssignment"
    "kind helper_decl = FunctionDeclaration"
    by (simp_all add: helper_decl_def nd_def)
  have i: "find (\<lambda>n. kind n = Identifier) (getChildren (fst (helper_decl, [util_root]))) \<noteq> None"
    by (simp add: helper_decl_def nd_def tok_def)
  have g: "getTextChanges_node plain_ts util_ts (helper_decl, [util_root])
       = Inr (?c, TrackRemoveExport ''util.ts'' 0 ''helper'', False)"
    by (simp add: edit_defs util_defs findFirstNodeOfKind_def slice_def)
  have x: "findIndex (\<lambda>n. kind n = SyntaxList) (getChildren helper_decl) = Some 0"
    by (simp add: helper_decl_def nd_def tok_def)
  from declaration_edit_frame[OF k(1,2) i g, where content = util_text]
  have "applyTextChanges util_text [?c] = take 0 util_text @ drop 7 util_text" by simp
  with k(3) g x show ?thesis by simp
qed

text \<open>
  Where every reference lies in the file of the definition of its referenced
  symbol, a plain exported declaration or an export assignment without skip
  comment whose reference set is returned is classified unused if and only if no
  reference lies outside its own file, and the file is flagged used otherwise.
\<close>

theorem plain_unused_iff_no_reference_outside:
  assumes "isDeclarationKind (kind node) \<or> kind node = ExportAssignment"
    and "isTarget node"
    and "\<not> str_includes (getLeadingComment ts sf node) IGNORE_COMMENT"
    and "findReferences sf node ls = Inr (Some refs)"
    and "groupedByFile refs"
  shows "visit ts ls fs p sf anc node st =
           Some (Inr (if filter (\<lambda>r. ref_fileName r \<noteq> fileName sf) (flatReferences refs) = []
                      then (fst st @ [(node, anc)], snd st) else (fst st, True)))
       \<and> (getUnusedExports ts ls sf fs = Some (Inr (nodes, used)) \<longrightarrow> walked sf anc node \<longrightarrow>
            ((node, anc) \<in> set nodes
               \<longleftrightarrow> filter (\<lambda>r. ref_fileName r \<noteq> fileName sf) (flatReferences refs) = [])
          \<and> (filter (\<lambda>r. ref_fileName r \<noteq> fileName sf) (flatReferences refs) \<noteq> []
               \<longrightarrow> used))"
proof -
  let ?out = "filter (\<lambda>r. ref_fileName r \<noteq> fileName sf) (flatReferences refs)"
  have step: "visit ts ls fs p sf anc node st =
     Some (Inr (if ?out = [] then (fst st @ [(node, anc)], snd st) else (fst st, True)))"
    for fs p st
    using visit_plain[OF assms(1-4)] by (simp add: kept_grouped(1)[OF assms(5)])
  have walk: "((node, anc) \<in> set nodes \<longleftrightarrow> ?out = []) \<and> (?out \<noteq> [] \<longrightarrow> used)"
    if g: "getUnusedExports ts ls sf fs = Some (Inr (nodes, used))" and w: "walked sf anc node"
  proof -
    from getUnusedExports_run[OF g] obtain q where
      run: "visit_each ts ls fs q sf [root sf] (forEachChild (root sf)) ([], False)
              = Some (Inr (nodes, used))" by blast
    from walked_visited[OF w run] obtain st1 st2 where
      v: "visit ts ls fs q sf anc node st1 = Some (Inr st2)"
      and s: "set (fst st2) \<subseteq> set nodes" "snd st2 \<longrightarrow> used" by auto
    have a: "(node, anc) \<in> set nodes" if "?out = []"
      using v s that by (auto simp: step)
    have b: "used" if "?out \<noteq> []"
      using v s that by (auto simp: step)
    have c: "?out = []" if "(node, anc) \<in> set nodes"
    proof (rule ccontr)
      assume n: "?out \<noteq> []"
      from visit_origin(2)[OF run] that have "pushedAt ts ls fs q sf (node, anc)" by auto
      then obtain st0 where
        "visit ts ls fs q sf anc node st0 = Some (Inr (fst st0 @ [(node, anc)], snd st0))"
        by (auto simp: pushedAt_def)
      with n show False by (simp add: step)
    qed
    from a b c show ?thesis by blast
  qed
  from step walk show ?thesis by blast
qed

theorem plain_unused_iff_no_reference_outside_witness:
  "getUnusedExports plain_ts util_service util_ts Map.empty
     = Some (Inr ([(helper_decl, [util_root])], True))
   \<and> walked util_ts [util_root] helper_decl
   \<and> walked util_ts [util_root] shared_decl
   \<and> findReferences util_ts helper_decl util_service = Inr (Some helper_refs)
   \<and> findReferences util_ts shared_decl util_service = Inr (Some shared_refs)
   \<and> groupedByFile helper_refs \<and> groupedByFile shared_refs
   \<and> length (flatReferences helper_refs) = 2
   \<and> filter (\<lambda>r. ref_fileName r \<noteq> fileName util_ts) (flatReferences helper_refs) = []
   \<and> length (filter (\<lambda>r. ref_fileName r \<noteq> fileName util_ts) (flatReferences shared_refs)) = 2
   \<and> (helper_decl, [util_root]) \<in> set [(helper_decl, [util_root])]
   \<and> (shared_decl, [util_root]) \<notin> set [(helper_decl, [util_root])]"
proof -
  have run: "getUnusedExports plain_ts util_service util_ts Map.empty
     = Some (Inr ([(helper_decl, [util_root])], True))"
    by (rule util_unused)
  have w1: "walked util_ts [util_root] helper_decl"
    using walked.top[of helper_decl util_ts] by (simp add: util_ts_def util_root_def nd_def)
  have w2: "walked util_ts [util_root] shared_decl"
    using walked.top[of shared_decl util_ts] by (simp add: util_ts_def util_root_def nd_def)
  have k1: "isDeclarationKind (kind helper_decl) \<or> kind helper_decl = ExportAssignment"
    by (simp add: isDeclarationKind_def helper_decl_def nd_def)
  have k2: "isDeclarationKind (kind shared_decl) \<or> kind shared_decl = ExportAssignment"
    by (simp add: isDeclarationKind_def shared_decl_def nd_def)
  have t1: "isTarget helper_decl"
    by (simp add: eval_defs util_defs)
  have t2: "isTarget shared_decl"
    by (simp add: eval_defs util_defs)
  have s1: "\<not> str_includes (getLeadingComment plain_ts util_ts helper_decl) IGNORE_COMMENT"
    by (simp add: eval_defs util_defs)
  have s2: "\<not> str_includes (getLeadingComment plain_ts util_ts shared_decl) IGNORE_COMMENT"
    by (simp add: eval_defs util_defs)
  have f1: "findReferences util_ts helper_decl util_service = Inr (Some helper_refs)"
    by (simp add: findReferences_def util_ts_def helper_decl_def nd_def util_service_def)
  have f2: "findReferences util_ts shared_decl util_service = Inr (Some shared_refs)"
    by (simp add: findReferences_def util_ts_def shared_decl_def nd_def util_service_def)
  have g1: "groupedByFile helper_refs" by (simp add: groupedByFile_def helper_refs_def)
  have g2: "groupedByFile shared_refs" by (simp add: groupedByFile_def shared_refs_def)
  have c0: "length (flatReferences helper_refs) = 2"
    by (simp add: flatReferences_def helper_refs_def)
  have c1: "filter (\<lambda>r. ref_fileName r \<noteq> fileName util_ts) (flatReferences helper_refs) = []"
    by (simp add: flatReferences_def helper_refs_def util_ts_def)
  have c2: "length (filter (\<lambda>r. ref_fileName r \<noteq> fileName util_ts)
                      (flatReferences shared_refs)) = 2"
    by (simp add: flatReferences_def shared_refs_def util_ts_def)
  from c2 have c2': "filter (\<lambda>r. ref_fileName r \<noteq> fileName util_ts)
                       (flatReferences shared_refs) \<noteq> []"
    by auto
  from plain_unused_iff_no_reference_outside[OF k1 t1 s1 f1 g1, THEN conjunct2, rule_format,
        OF run w1] c1
  have m1: "(helper_decl, [util_root]) \<in> set [(helper_decl, [util_root])]" by blast
  from plain_unused_iff_no_reference_outside[OF k2 t2 s2 f2 g2, THEN conjunct2, rule_format,
        OF run w2] c2'
  have m2: "(shared_decl, [util_root]) \<notin> set [(helper_decl, [util_root])]" by blast
  from run w1 w2 f1 f2 g1 g2 c0 c1 c2 m1 m2 show ?thesis by (intro conjI)
qed


end
